theory Spec2Isabelle
  imports Main "HOL-Library.Word"
begin

unbundle bit_operations_syntax

section \<open>The accelerator driver (gemm\_accel\_driver.h, gemm\_accel\_driver.c)\<close>

type_synonym u8 = "8 word"
type_synonym u16 = "16 word"
type_synonym u32 = "32 word"

subsection \<open>Register map and bit masks\<close>

definition GEMM_ACCEL_BASE_ADDR :: u32 where
  "GEMM_ACCEL_BASE_ADDR = 0x40000000"

definition GEMM_CTRL_REG :: u32 where
  "GEMM_CTRL_REG = GEMM_ACCEL_BASE_ADDR + 0x00"

definition GEMM_STATUS_REG :: u32 where
  "GEMM_STATUS_REG = GEMM_ACCEL_BASE_ADDR + 0x04"

definition GEMM_MATRIX_A_ADDR_REG :: u32 where
  "GEMM_MATRIX_A_ADDR_REG = GEMM_ACCEL_BASE_ADDR + 0x08"

definition GEMM_MATRIX_B_ADDR_REG :: u32 where
  "GEMM_MATRIX_B_ADDR_REG = GEMM_ACCEL_BASE_ADDR + 0x0C"

definition GEMM_MATRIX_C_ADDR_REG :: u32 where
  "GEMM_MATRIX_C_ADDR_REG = GEMM_ACCEL_BASE_ADDR + 0x10"

definition GEMM_M_DIM_REG :: u32 where
  "GEMM_M_DIM_REG = GEMM_ACCEL_BASE_ADDR + 0x14"

definition GEMM_K_DIM_REG :: u32 where
  "GEMM_K_DIM_REG = GEMM_ACCEL_BASE_ADDR + 0x18"

definition GEMM_N_DIM_REG :: u32 where
  "GEMM_N_DIM_REG = GEMM_ACCEL_BASE_ADDR + 0x1C"

definition GEMM_DATA_TYPE_REG :: u32 where
  "GEMM_DATA_TYPE_REG = GEMM_ACCEL_BASE_ADDR + 0x20"

definition GEMM_STRIDE_A_REG :: u32 where
  "GEMM_STRIDE_A_REG = GEMM_ACCEL_BASE_ADDR + 0x24"

definition GEMM_STRIDE_B_REG :: u32 where
  "GEMM_STRIDE_B_REG = GEMM_ACCEL_BASE_ADDR + 0x28"

definition GEMM_STRIDE_C_REG :: u32 where
  "GEMM_STRIDE_C_REG = GEMM_ACCEL_BASE_ADDR + 0x2C"

definition GEMM_CTRL_START :: u32 where
  "GEMM_CTRL_START = push_bit 0 1"

definition GEMM_CTRL_RESET :: u32 where
  "GEMM_CTRL_RESET = push_bit 1 1"

definition GEMM_CTRL_IRQ_EN :: u32 where
  "GEMM_CTRL_IRQ_EN = push_bit 2 1"

definition GEMM_STATUS_BUSY :: u32 where
  "GEMM_STATUS_BUSY = push_bit 0 1"

definition GEMM_STATUS_DONE :: u32 where
  "GEMM_STATUS_DONE = push_bit 1 1"

definition GEMM_STATUS_ERROR :: u32 where
  "GEMM_STATUS_ERROR = push_bit 2 1"

definition GEMM_DATA_TYPE_INT8 :: u8 where
  "GEMM_DATA_TYPE_INT8 = 0"

definition GEMM_DATA_TYPE_INT16 :: u8 where
  "GEMM_DATA_TYPE_INT16 = 1"

subsection \<open>Configuration structure\<close>

record gemm_config_t =
  matrix_a_addr :: u32
  matrix_b_addr :: u32
  matrix_c_addr :: u32
  m_dim :: u16
  k_dim :: u16
  n_dim :: u16
  data_type :: u8
  stride_a :: u16
  stride_b :: u16
  stride_c :: u16

subsection \<open>The machine the driver runs on\<close>

text \<open>
  The driver talks to the accelerator only through volatile 32-bit loads and stores.
  The accelerator itself is a black box, so the model keeps:
  \<^item> \<open>regs\<close>: the register block as software has programmed it; a load from any
    register other than STATUS returns the stored word;
  \<^item> \<open>status_feed\<close> and \<open>status_reads\<close>: the word the hardware presents at each
    successive load of STATUS (the register may change between two loads), and how many
    loads have been made so far;
  \<^item> \<open>trace\<close>: every load, store and cycle-counter sample, in program order;
  \<^item> the two file-scope variables \<open>driver_initialized\<close> and \<open>cycle_count_start\<close>,
    and the function-local static \<open>cycle_count\<close> of \<open>gemm_accel_get_cycle_count\<close>;
  \<^item> \<open>console\<close>: the lines printed with printf, in order.
\<close>

datatype access = RegRead u32 u32 | RegWrite u32 u32 | CycleSample u32

datatype message =
    MsgInitialized
  | ErrNotInitialized
  | ErrNullConfig
  | ErrBusy
  | ErrInvalidDimensions
  | ErrInvalidDataType
  | MsgStarted u16 u16 u16 string
  | ErrOperationFailed
  | MsgCompleted u32
  | MsgReset

record machine =
  regs :: "u32 \<Rightarrow> u32"
  status_feed :: "nat \<Rightarrow> u32"
  status_reads :: nat
  trace :: "access list"
  driver_initialized :: bool
  cycle_count_start :: u32
  cycle_count :: u32
  console :: "message list"

definition REG_READ :: "u32 \<Rightarrow> machine \<Rightarrow> u32 \<times> machine" where
  "REG_READ addr s =
     (if addr = GEMM_STATUS_REG
      then (let v = status_feed s (status_reads s)
            in (v, s\<lparr>status_reads := Suc (status_reads s),
                     trace := trace s @ [RegRead addr v]\<rparr>))
      else (regs s addr, s\<lparr>trace := trace s @ [RegRead addr (regs s addr)]\<rparr>))"

definition REG_WRITE :: "u32 \<Rightarrow> u32 \<Rightarrow> machine \<Rightarrow> machine" where
  "REG_WRITE addr val s =
     s\<lparr>regs := (regs s)(addr := val), trace := trace s @ [RegWrite addr val]\<rparr>"

definition printf :: "message \<Rightarrow> machine \<Rightarrow> machine" where
  "printf msg s = s\<lparr>console := console s @ [msg]\<rparr>"

subsection \<open>Status predicates and the cycle counter\<close>

definition gemm_accel_is_busy :: "machine \<Rightarrow> bool \<times> machine" where
  "gemm_accel_is_busy s =
     (case REG_READ GEMM_STATUS_REG s of (v, s') \<Rightarrow> (v AND GEMM_STATUS_BUSY \<noteq> 0, s'))"

definition gemm_accel_is_done :: "machine \<Rightarrow> bool \<times> machine" where
  "gemm_accel_is_done s =
     (case REG_READ GEMM_STATUS_REG s of (v, s') \<Rightarrow> (v AND GEMM_STATUS_DONE \<noteq> 0, s'))"

definition gemm_accel_has_error :: "machine \<Rightarrow> bool \<times> machine" where
  "gemm_accel_has_error s =
     (case REG_READ GEMM_STATUS_REG s of (v, s') \<Rightarrow> (v AND GEMM_STATUS_ERROR \<noteq> 0, s'))"

text \<open>The placeholder counter: a static 32-bit variable advanced by 100 at every call.\<close>

definition gemm_accel_get_cycle_count :: "machine \<Rightarrow> u32 \<times> machine" where
  "gemm_accel_get_cycle_count s =
     (let c = cycle_count s + 100
      in (c, s\<lparr>cycle_count := c, trace := trace s @ [CycleSample c]\<rparr>))"

subsection \<open>The polling loop\<close>

text \<open>
  \<^verbatim>\<open>while (gemm_accel_is_busy()) { }\<close> occurs in init, wait and reset. It has no bound:
  on hardware that never clears BUSY it does not return, which is the value \<open>None\<close>.
\<close>

partial_function (option) while_busy :: "machine \<Rightarrow> machine option" where
  "while_busy s =
     (case gemm_accel_is_busy s of (busy, s') \<Rightarrow> if busy then while_busy s' else Some s')"

subsection \<open>Driver entry points\<close>

definition gemm_accel_reset :: "machine \<Rightarrow> machine option" where
  "gemm_accel_reset s =
     (case while_busy (REG_WRITE GEMM_CTRL_REG GEMM_CTRL_RESET s) of
        None \<Rightarrow> None
      | Some s' \<Rightarrow> Some (printf MsgReset s'))"

definition gemm_accel_init :: "machine \<Rightarrow> (int \<times> machine) option" where
  "gemm_accel_init s =
     (if driver_initialized s then Some (0, s)
      else (case gemm_accel_reset s of
              None \<Rightarrow> None
            | Some s1 \<Rightarrow>
                (case while_busy s1 of
                   None \<Rightarrow> None
                 | Some s2 \<Rightarrow>
                     Some (0, printf MsgInitialized (s2\<lparr>driver_initialized := True\<rparr>)))))"

text \<open>The pointer argument of \<open>gemm_accel_start\<close> may be NULL: \<open>None\<close>.\<close>

definition gemm_accel_start :: "gemm_config_t option \<Rightarrow> machine \<Rightarrow> int \<times> machine" where
  "gemm_accel_start config s =
     (if \<not> driver_initialized s then (- 1, printf ErrNotInitialized s)
      else (case config of
              None \<Rightarrow> (- 1, printf ErrNullConfig s)
            | Some cfg \<Rightarrow>
                (case gemm_accel_is_busy s of (busy, s0) \<Rightarrow>
                   if busy then (- 1, printf ErrBusy s0)
                   else if m_dim cfg = 0 \<or> k_dim cfg = 0 \<or> n_dim cfg = 0
                     then (- 1, printf ErrInvalidDimensions s0)
                   else if data_type cfg > GEMM_DATA_TYPE_INT16
                     then (- 1, printf ErrInvalidDataType s0)
                   else
                     (let s1 = REG_WRITE GEMM_MATRIX_A_ADDR_REG (matrix_a_addr cfg) s0;
                          s2 = REG_WRITE GEMM_MATRIX_B_ADDR_REG (matrix_b_addr cfg) s1;
                          s3 = REG_WRITE GEMM_MATRIX_C_ADDR_REG (matrix_c_addr cfg) s2;
                          s4 = REG_WRITE GEMM_M_DIM_REG (ucast (m_dim cfg)) s3;
                          s5 = REG_WRITE GEMM_K_DIM_REG (ucast (k_dim cfg)) s4;
                          s6 = REG_WRITE GEMM_N_DIM_REG (ucast (n_dim cfg)) s5;
                          s7 = REG_WRITE GEMM_DATA_TYPE_REG (ucast (data_type cfg)) s6;
                          s8 = REG_WRITE GEMM_STRIDE_A_REG (ucast (stride_a cfg)) s7;
                          s9 = REG_WRITE GEMM_STRIDE_B_REG (ucast (stride_b cfg)) s8;
                          s10 = REG_WRITE GEMM_STRIDE_C_REG (ucast (stride_c cfg)) s9;
                          s11 = REG_WRITE GEMM_CTRL_REG GEMM_CTRL_START s10
                      in (case gemm_accel_get_cycle_count s11 of (c, s12) \<Rightarrow>
                            (0, printf (MsgStarted (m_dim cfg) (k_dim cfg) (n_dim cfg)
                                          (if data_type cfg = GEMM_DATA_TYPE_INT8
                                           then ''int8'' else ''int16''))
                                  (s12\<lparr>cycle_count_start := c\<rparr>)))))))"

definition gemm_accel_wait :: "machine \<Rightarrow> (int \<times> machine) option" where
  "gemm_accel_wait s =
     (if \<not> driver_initialized s then Some (- 1, printf ErrNotInitialized s)
      else (case while_busy s of
              None \<Rightarrow> None
            | Some s1 \<Rightarrow>
                (case gemm_accel_has_error s1 of (err, s2) \<Rightarrow>
                   if err then Some (- 1, printf ErrOperationFailed s2)
                   else (case gemm_accel_get_cycle_count s2 of (cycle_count_end, s3) \<Rightarrow>
                           (let total_cycles = cycle_count_end - cycle_count_start s3
                            in Some (0, printf (MsgCompleted total_cycles) s3))))))"

definition gemm_accel_status :: "machine \<Rightarrow> int \<times> machine" where
  "gemm_accel_status s =
     (if \<not> driver_initialized s then (- 1, s)
      else (case REG_READ GEMM_STATUS_REG s of (status, s') \<Rightarrow>
              if status AND GEMM_STATUS_ERROR \<noteq> 0 then (- 1, s')
              else if status AND GEMM_STATUS_DONE \<noteq> 0 then (1, s')
              else if status AND GEMM_STATUS_BUSY \<noteq> 0 then (0, s')
              else (2, s')))"

definition gemm_accel_set_interrupt_enable :: "bool \<Rightarrow> machine \<Rightarrow> machine" where
  "gemm_accel_set_interrupt_enable enable s =
     (case REG_READ GEMM_CTRL_REG s of (ctrl, s') \<Rightarrow>
        REG_WRITE GEMM_CTRL_REG
          (if enable then ctrl OR GEMM_CTRL_IRQ_EN else ctrl AND NOT GEMM_CTRL_IRQ_EN) s')"

definition gemm_create_config ::
  "u32 \<Rightarrow> u32 \<Rightarrow> u32 \<Rightarrow> u16 \<Rightarrow> u16 \<Rightarrow> u16 \<Rightarrow> u8 \<Rightarrow> u16 \<Rightarrow> u16 \<Rightarrow> u16 \<Rightarrow> gemm_config_t" where
  "gemm_create_config a b c m k n dt sa sb sc =
     \<lparr>matrix_a_addr = a, matrix_b_addr = b, matrix_c_addr = c,
      m_dim = m, k_dim = k, n_dim = n, data_type = dt,
      stride_a = sa, stride_b = sb, stride_c = sc\<rparr>"

text \<open>The configuration built by \<open>gemm_example\<close>: an 8x8x8 int8 product.\<close>

definition example_config :: gemm_config_t where
  "example_config =
     gemm_create_config 0x80000000 0x80001000 0x80002000 8 8 8 GEMM_DATA_TYPE_INT8 8 8 8"

section \<open>The software oracle (software\_oracle.c)\<close>

text \<open>
  A matrix argument is a pointer; the model addresses the memory behind it by the element
  index relative to that pointer, so a buffer is a function from indices. The three
  buffers of a call are distinct objects, as they are in the harness.

  A value of C type \<open>int\<close> (dimension, stride, loop counter, index expression, error
  count) is a 32-bit word \<open>c_int\<close>: it is read as two's complement with \<open>sint\<close>, compared
  with the signed order \<open><s\<close>, and its arithmetic wraps around. So the index expression
  \<open>m * stride_a + k\<close> is the 32-bit value that the machine computes, and the element
  accessed is the one at that signed offset from the pointer. C leaves signed overflow
  undefined; where the mathematical value fits in \<open>int\<close> the 32-bit value is that value.
  The accumulator \<open>sum\<close> (here \<open>acc\<close>) is an \<open>int32_t\<close> and wraps in the same way, which
  the specification fixes as two's-complement accumulation without saturation.

  The output buffer carries, besides its cells, the list of the stores made into it, in
  program order.
\<close>

type_synonym c_int = "32 word"

record c_buffer =
  cells :: "int \<Rightarrow> 32 word"
  stores :: "(int \<times> 32 word) list"

definition store :: "int \<Rightarrow> 32 word \<Rightarrow> c_buffer \<Rightarrow> c_buffer" where
  "store i v C = C\<lparr>cells := (cells C)(i := v), stores := stores C @ [(i, v)]\<rparr>"

text \<open>
  A counter that is below its bound is not the largest \<open>int\<close>, so incrementing it does
  not wrap; every loop of the oracle terminates by this fact.
\<close>

lemma sint_succ: "k <s K \<Longrightarrow> sint (k + 1) = sint k + 1" for k K :: c_int
proof -
  assume "k <s K"
  then have "sint k < sint K" by (simp add: word_sless_alt)
  moreover have "sint K < 2 ^ (LENGTH(32) - 1)" by (rule sint_lt)
  moreover have "- (2 ^ (LENGTH(32) - 1)) \<le> sint k" by (rule sint_ge)
  ultimately have "signed_take_bit 31 (sint k + 1) = sint k + 1"
    by (intro signed_take_bit_int_eq_self) simp_all
  then show ?thesis
    by (simp add: sint_word_ariths)
qed

subsection \<open>matrix\_multiply\_int8 and matrix\_multiply\_int16\<close>

text \<open>
  The two functions differ only in the element type, so the three nested loops are
  written once, for elements of any width; \<open>scast\<close> is the conversion \<open>(int32_t)\<close> of a
  signed element. The parameters \<open>sa\<close>, \<open>sb\<close> and \<open>sc\<close> are \<open>stride_a\<close>, \<open>stride_b\<close>
  and \<open>stride_c\<close>.
\<close>

function mm_k_loop ::
  "(int \<Rightarrow> 'a::len word) \<Rightarrow> (int \<Rightarrow> 'a word) \<Rightarrow> c_int \<Rightarrow> c_int \<Rightarrow> c_int \<Rightarrow> c_int \<Rightarrow> c_int
     \<Rightarrow> c_int \<Rightarrow> 32 word \<Rightarrow> 32 word" where
  "mm_k_loop A B K sa sb m n k acc =
     (if k <s K
      then mm_k_loop A B K sa sb m n (k + 1)
             (acc + scast (A (sint (m * sa + k))) * scast (B (sint (k * sb + n))))
      else acc)"
  by pat_completeness auto
termination
  by (relation "measure (\<lambda>(A, B, K, sa, sb, m, n, k, acc). nat (sint K - sint k))")
    (auto simp: sint_succ word_sless_alt)

declare mm_k_loop.simps [simp del]

function mm_n_loop ::
  "(int \<Rightarrow> 'a::len word) \<Rightarrow> (int \<Rightarrow> 'a word) \<Rightarrow> c_int \<Rightarrow> c_int \<Rightarrow> c_int \<Rightarrow> c_int \<Rightarrow> c_int
     \<Rightarrow> c_int \<Rightarrow> c_int \<Rightarrow> c_buffer \<Rightarrow> c_buffer" where
  "mm_n_loop A B K N sa sb sc m n C =
     (if n <s N
      then mm_n_loop A B K N sa sb sc m (n + 1)
             (store (sint (m * sc + n)) (mm_k_loop A B K sa sb m n 0 0) C)
      else C)"
  by pat_completeness auto
termination
  by (relation "measure (\<lambda>(A, B, K, N, sa, sb, sc, m, n, C). nat (sint N - sint n))")
    (auto simp: sint_succ word_sless_alt)

declare mm_n_loop.simps [simp del]

function mm_m_loop ::
  "(int \<Rightarrow> 'a::len word) \<Rightarrow> (int \<Rightarrow> 'a word) \<Rightarrow> c_int \<Rightarrow> c_int \<Rightarrow> c_int \<Rightarrow> c_int \<Rightarrow> c_int
     \<Rightarrow> c_int \<Rightarrow> c_int \<Rightarrow> c_buffer \<Rightarrow> c_buffer" where
  "mm_m_loop A B M K N sa sb sc m C =
     (if m <s M
      then mm_m_loop A B M K N sa sb sc (m + 1)
             (mm_n_loop A B K N sa sb sc m 0 C)
      else C)"
  by pat_completeness auto
termination
  by (relation "measure (\<lambda>(A, B, M, K, N, sa, sb, sc, m, C). nat (sint M - sint m))")
    (auto simp: sint_succ word_sless_alt)

declare mm_m_loop.simps [simp del]

definition matrix_multiply_int8 ::
  "(int \<Rightarrow> 8 word) \<Rightarrow> (int \<Rightarrow> 8 word) \<Rightarrow> c_buffer \<Rightarrow> c_int \<Rightarrow> c_int \<Rightarrow> c_int \<Rightarrow> c_int \<Rightarrow> c_int
     \<Rightarrow> c_int \<Rightarrow> c_buffer" where
  "matrix_multiply_int8 A B C M K N sa sb sc =
     mm_m_loop A B M K N sa sb sc 0 C"

definition matrix_multiply_int16 ::
  "(int \<Rightarrow> 16 word) \<Rightarrow> (int \<Rightarrow> 16 word) \<Rightarrow> c_buffer \<Rightarrow> c_int \<Rightarrow> c_int \<Rightarrow> c_int \<Rightarrow> c_int \<Rightarrow> c_int
     \<Rightarrow> c_int \<Rightarrow> c_buffer" where
  "matrix_multiply_int16 A B C M K N sa sb sc =
     mm_m_loop A B M K N sa sb sc 0 C"

subsection \<open>Test matrices\<close>

text \<open>
  \<open>rand()\<close> is an outside source of non-negative numbers: \<open>rnd p\<close> is the value of its
  \<open>p\<close>-th call. A generator loop stores the converted value of one call in each cell and
  counts the calls.
\<close>

function fill_loop ::
  "(nat \<Rightarrow> nat) \<Rightarrow> (int \<Rightarrow> 'a::len word) \<Rightarrow> c_int \<Rightarrow> c_int \<Rightarrow> (int \<Rightarrow> 'a word) \<times> nat
     \<Rightarrow> (int \<Rightarrow> 'a word) \<times> nat" where
  "fill_loop rnd conv n i (X, p) =
     (if i <s n then fill_loop rnd conv n (i + 1) (X(sint i := conv (int (rnd p))), Suc p)
      else (X, p))"
  by pat_completeness auto
termination
  by (relation "measure (\<lambda>(rnd, conv, n, i, Xp). nat (sint n - sint i))")
    (auto simp: sint_succ word_sless_alt)

declare fill_loop.simps [simp del]

definition generate_test_matrices_int8 ::
  "(nat \<Rightarrow> nat) \<Rightarrow> (int \<Rightarrow> 8 word) \<times> (int \<Rightarrow> 8 word) \<times> nat \<Rightarrow> c_int \<Rightarrow> c_int \<Rightarrow> c_int
     \<Rightarrow> (int \<Rightarrow> 8 word) \<times> (int \<Rightarrow> 8 word) \<times> nat" where
  "generate_test_matrices_int8 rnd ABp M K N =
     (case ABp of (A, B, p) \<Rightarrow>
        (case fill_loop rnd (\<lambda>r. word_of_int (r mod 256 - 128)) (M * K) 0 (A, p) of
           (A', p') \<Rightarrow>
             (case fill_loop rnd (\<lambda>r. ucast (word_of_int (r mod 256 - 128) :: 16 word))
                     (K * N) 0 (B, p') of
                (B', p'') \<Rightarrow> (A', B', p''))))"

definition generate_test_matrices_int16 ::
  "(nat \<Rightarrow> nat) \<Rightarrow> (int \<Rightarrow> 16 word) \<times> (int \<Rightarrow> 16 word) \<times> nat \<Rightarrow> c_int \<Rightarrow> c_int \<Rightarrow> c_int
     \<Rightarrow> (int \<Rightarrow> 16 word) \<times> (int \<Rightarrow> 16 word) \<times> nat" where
  "generate_test_matrices_int16 rnd ABp M K N =
     (case ABp of (A, B, p) \<Rightarrow>
        (case fill_loop rnd (\<lambda>r. word_of_int (r mod 65536 - 32768)) (M * K) 0 (A, p) of
           (A', p') \<Rightarrow>
             (case fill_loop rnd (\<lambda>r. word_of_int (r mod 65536 - 32768)) (K * N) 0 (B, p') of
                (B', p'') \<Rightarrow> (A', B', p''))))"

subsection \<open>compare\_results\<close>

datatype oracle_line =
    Banner
  | TestLine c_int string
  | ErrorAt c_int "32 word" "32 word"
  | ErrorsLine c_int
  | TotalLine c_int
  | AllPassed
  | SomeFailed

text \<open>
  The bound of the loop is the \<open>int\<close> product \<open>M * N\<close>, computed once here as the loop
  does not change \<open>M\<close> and \<open>N\<close>; the counter \<open>i\<close> and the count \<open>errors\<close> are \<open>int\<close> too.
\<close>

function cmp_loop ::
  "(int \<Rightarrow> 32 word) \<Rightarrow> (int \<Rightarrow> 32 word) \<Rightarrow> c_int \<Rightarrow> c_int \<Rightarrow> c_int \<times> oracle_line list
     \<Rightarrow> c_int \<times> oracle_line list" where
  "cmp_loop C_hw C_ref MN i (errors, out) =
     (if i <s MN
      then cmp_loop C_hw C_ref MN (i + 1)
             (if C_hw (sint i) \<noteq> C_ref (sint i)
              then (errors + 1, out @ [ErrorAt i (C_hw (sint i)) (C_ref (sint i))])
              else (errors, out))
      else (errors, out))"
  by pat_completeness auto
termination
  by (relation "measure (\<lambda>(C_hw, C_ref, MN, i, eo). nat (sint MN - sint i))")
    (auto simp: sint_succ word_sless_alt)

declare cmp_loop.simps [simp del]

definition compare_results ::
  "(int \<Rightarrow> 32 word) \<Rightarrow> (int \<Rightarrow> 32 word) \<Rightarrow> c_int \<Rightarrow> c_int \<Rightarrow> oracle_line list
     \<Rightarrow> c_int \<times> oracle_line list" where
  "compare_results C_hw C_ref M N out = cmp_loop C_hw C_ref (M * N) 0 (0, out)"

subsection \<open>main\<close>

record test_case_t =
  tc_M :: c_int
  tc_K :: c_int
  tc_N :: c_int
  tc_data_type :: c_int
  tc_name :: string

definition test_cases :: "test_case_t list" where
  "test_cases =
     [\<lparr>tc_M = 8, tc_K = 8, tc_N = 8, tc_data_type = 0, tc_name = ''8x8x8 int8''\<rparr>,
      \<lparr>tc_M = 16, tc_K = 16, tc_N = 16, tc_data_type = 0, tc_name = ''16x16x16 int8''\<rparr>,
      \<lparr>tc_M = 32, tc_K = 32, tc_N = 32, tc_data_type = 0, tc_name = ''32x32x32 int8''\<rparr>,
      \<lparr>tc_M = 8, tc_K = 8, tc_N = 8, tc_data_type = 1, tc_name = ''8x8x8 int16''\<rparr>,
      \<lparr>tc_M = 16, tc_K = 16, tc_N = 16, tc_data_type = 1, tc_name = ''16x16x16 int16''\<rparr>,
      \<lparr>tc_M = 32, tc_K = 32, tc_N = 32, tc_data_type = 1, tc_name = ''32x32x32 int16''\<rparr>,
      \<lparr>tc_M = 64, tc_K = 64, tc_N = 64, tc_data_type = 0, tc_name = ''64x64x64 int8''\<rparr>,
      \<lparr>tc_M = 128, tc_K = 128, tc_N = 128, tc_data_type = 0, tc_name = ''128x128x128 int8''\<rparr>]"

definition num_tests :: c_int where
  "num_tests = of_nat (length test_cases)"

text \<open>
  A block returned by \<open>malloc\<close> has indeterminate contents. Every cell the harness reads
  has been written before, so the model may start each block with zeros. \<open>memset_zero C n\<close>
  is \<open>memset(C, 0, n * sizeof(int32_t))\<close> for a count \<open>n\<close> that is not negative, as it is
  in every test case.
\<close>

definition malloc :: "int \<Rightarrow> 'a::len word" where
  "malloc = (\<lambda>_. 0)"

definition memset_zero :: "(int \<Rightarrow> 32 word) \<Rightarrow> int \<Rightarrow> int \<Rightarrow> 32 word" where
  "memset_zero C n = (\<lambda>i. if 0 \<le> i \<and> i < n then 0 else C i)"

text \<open>
  The buffers that one test case compares: \<open>C_hw\<close> (zeroed, the hardware run being a
  placeholder), \<open>C_ref\<close> from the reference model on fresh random matrices, and the
  number of calls of \<open>rand()\<close> made so far.
\<close>

definition test_buffers ::
  "(nat \<Rightarrow> nat) \<Rightarrow> nat \<Rightarrow> test_case_t \<Rightarrow> (int \<Rightarrow> 32 word) \<times> (int \<Rightarrow> 32 word) \<times> nat" where
  "test_buffers rnd p tc =
     (if tc_data_type tc = 0
      then (case generate_test_matrices_int8 rnd (malloc, malloc, p) (tc_M tc) (tc_K tc) (tc_N tc) of
              (A, B, p') \<Rightarrow>
                (memset_zero malloc (sint (tc_M tc * tc_N tc)),
                 cells (matrix_multiply_int8 A B \<lparr>cells = malloc, stores = []\<rparr>
                          (tc_M tc) (tc_K tc) (tc_N tc) (tc_K tc) (tc_N tc) (tc_N tc)),
                 p'))
      else (case generate_test_matrices_int16 rnd (malloc, malloc, p) (tc_M tc) (tc_K tc) (tc_N tc) of
              (A, B, p') \<Rightarrow>
                (memset_zero malloc (sint (tc_M tc * tc_N tc)),
                 cells (matrix_multiply_int16 A B \<lparr>cells = malloc, stores = []\<rparr>
                          (tc_M tc) (tc_K tc) (tc_N tc) (tc_K tc) (tc_N tc) (tc_N tc)),
                 p')))"

text \<open>
  The loop over the test cases. Its counter \<open>t\<close> starts at 0 and stays below
  \<open>num_tests\<close>, so \<open>test_cases ! nat (sint t)\<close> is the array access \<open>test_cases[t]\<close>.
  \<open>total_errors\<close> is an \<open>int\<close>.
\<close>

record harness =
  total_errors :: c_int
  rand_calls :: nat
  printed :: "oracle_line list"

function main_loop :: "(nat \<Rightarrow> nat) \<Rightarrow> c_int \<Rightarrow> harness \<Rightarrow> harness" where
  "main_loop rnd t h =
     (if t <s num_tests
      then (let tc = test_cases ! nat (sint t)
            in (case test_buffers rnd (rand_calls h) tc of
                  (C_hw, C_ref, p) \<Rightarrow>
                    (case compare_results C_hw C_ref (tc_M tc) (tc_N tc)
                            (printed h @ [TestLine (t + 1) (tc_name tc)]) of
                       (errors, out) \<Rightarrow>
                         main_loop rnd (t + 1)
                           \<lparr>total_errors = total_errors h + errors,
                            rand_calls = p,
                            printed = out @ [ErrorsLine errors]\<rparr>)))
      else h)"
  by pat_completeness auto
termination
  by (relation "measure (\<lambda>(rnd, t, h). nat (sint num_tests - sint t))")
    (auto simp: sint_succ word_sless_alt)

declare main_loop.simps [simp del]

definition main :: "(nat \<Rightarrow> nat) \<Rightarrow> c_int \<times> oracle_line list" where
  "main rnd =
     (let h = main_loop rnd 0 \<lparr>total_errors = 0, rand_calls = 0, printed = [Banner]\<rparr>
      in (total_errors h,
          printed h @ [TotalLine (total_errors h),
                      if total_errors h = 0 then AllPassed else SomeFailed]))"

section \<open>The specification's notions for the oracle\<close>

text \<open>
  \<open>wrap_int32\<close> reduces an integer to the signed 32-bit range (modulo \<open>2^32\<close>, read as
  two's complement); \<open>fits_int\<close> says that an integer is in that range, where the
  reduction changes nothing.

  \<open>dot_product\<close> is the mathematical dot product of row \<open>m\<close> of \<open>A\<close> and column \<open>n\<close> of
  \<open>B\<close> with the given row pitches, over the integers. \<open>dot_product_c\<close> is the same sum
  with each index expression reduced to the 32-bit value that C computes. Dimensions,
  strides and counters are here the signed values of the C variables.
\<close>

definition wrap_int32 :: "int \<Rightarrow> int" where
  "wrap_int32 x = (x + 2 ^ 31) mod 2 ^ 32 - 2 ^ 31"

definition fits_int :: "int \<Rightarrow> bool" where
  "fits_int x \<longleftrightarrow> - (2 ^ 31) \<le> x \<and> x < 2 ^ 31"

definition dot_product ::
  "(int \<Rightarrow> 'a::len word) \<Rightarrow> (int \<Rightarrow> 'a word) \<Rightarrow> int \<Rightarrow> int \<Rightarrow> int \<Rightarrow> int \<Rightarrow> int \<Rightarrow> int" where
  "dot_product A B K sa sb m n =
     (\<Sum>k = 0..<K. sint (A (m * sa + k)) * sint (B (k * sb + n)))"

definition dot_product_c ::
  "(int \<Rightarrow> 'a::len word) \<Rightarrow> (int \<Rightarrow> 'a word) \<Rightarrow> int \<Rightarrow> int \<Rightarrow> int \<Rightarrow> int \<Rightarrow> int \<Rightarrow> int" where
  "dot_product_c A B K sa sb m n =
     (\<Sum>k = 0..<K. sint (A (wrap_int32 (m * sa + k))) * sint (B (wrap_int32 (k * sb + n))))"

text \<open>All index expressions of a call have their mathematical values.\<close>

definition indices_fit :: "int \<Rightarrow> int \<Rightarrow> int \<Rightarrow> int \<Rightarrow> int \<Rightarrow> int \<Rightarrow> bool" where
  "indices_fit M K N sa sb sc \<longleftrightarrow>
     (\<forall>m n. 0 \<le> m \<and> m < M \<and> 0 \<le> n \<and> n < N \<longrightarrow>
        fits_int (m * sc + n)
        \<and> (\<forall>k. 0 \<le> k \<and> k < K \<longrightarrow> fits_int (m * sa + k) \<and> fits_int (k * sb + n)))"

text \<open>
  The contract of the reference model, in the specification's words, between the output
  buffer \<open>C\<close> before the call and \<open>C'\<close> after it:
  \<^item> the stores made are, in row-major order of \<open>(m, n)\<close> with \<open>0 \<le> m < M\<close> and
    \<open>0 \<le> n < N\<close>, one store into the cell whose index is the \<open>int\<close> value of
    \<open>m * sc + n\<close>, of the value whose signed reading is the dot product reduced to 32 bits;
  \<^item> when the index expressions fit in \<open>int\<close>, these are the cells \<open>m * sc + n\<close> and the
    mathematical dot products;
  \<^item> a cell that no later iteration stores into again keeps that value to the end (with
    a row pitch below \<open>N\<close> different \<open>(m, n)\<close> can share a cell, and the last store wins);
  \<^item> a cell that is the index of no store is unchanged.
\<close>

definition reference_contract ::
  "(int \<Rightarrow> 'a::len word) \<Rightarrow> (int \<Rightarrow> 'a word) \<Rightarrow> c_buffer \<Rightarrow> c_buffer
     \<Rightarrow> int \<Rightarrow> int \<Rightarrow> int \<Rightarrow> int \<Rightarrow> int \<Rightarrow> int \<Rightarrow> bool" where
  "reference_contract A B C C' M K N sa sb sc \<longleftrightarrow>
     (\<exists>new. stores C' = stores C @ new
        \<and> map (\<lambda>(i, v). (i, sint v)) new =
            concat (map (\<lambda>m. map (\<lambda>n. (wrap_int32 (m * sc + n),
                                         wrap_int32 (dot_product_c A B K sa sb m n)))
                                [0..N - 1]) [0..M - 1])
        \<and> (indices_fit M K N sa sb sc \<longrightarrow>
             map (\<lambda>(i, v). (i, sint v)) new =
               concat (map (\<lambda>m. map (\<lambda>n. (m * sc + n, wrap_int32 (dot_product A B K sa sb m n)))
                                   [0..N - 1]) [0..M - 1])))
     \<and> (\<forall>m n. 0 \<le> m \<and> m < M \<and> 0 \<le> n \<and> n < N
            \<and> (\<forall>m' n'. 0 \<le> m' \<and> m' < M \<and> 0 \<le> n' \<and> n' < N
                   \<and> (m < m' \<or> (m' = m \<and> n < n'))
                   \<longrightarrow> wrap_int32 (m' * sc + n') \<noteq> wrap_int32 (m * sc + n))
          \<longrightarrow> sint (cells C' (wrap_int32 (m * sc + n))) =
                wrap_int32 (dot_product_c A B K sa sb m n))
     \<and> (indices_fit M K N sa sb sc \<longrightarrow>
          (\<forall>m n. 0 \<le> m \<and> m < M \<and> 0 \<le> n \<and> n < N
             \<and> (\<forall>m' n'. 0 \<le> m' \<and> m' < M \<and> 0 \<le> n' \<and> n' < N
                    \<and> (m < m' \<or> (m' = m \<and> n < n')) \<longrightarrow> m' * sc + n' \<noteq> m * sc + n)
           \<longrightarrow> sint (cells C' (m * sc + n)) = wrap_int32 (dot_product A B K sa sb m n)))
     \<and> (\<forall>i. (\<forall>m n. 0 \<le> m \<and> m < M \<and> 0 \<le> n \<and> n < N \<longrightarrow> i \<noteq> wrap_int32 (m * sc + n))
          \<longrightarrow> cells C' i = cells C i)"

text \<open>
  The number of indices \<open>i\<close> with \<open>0 \<le> i < MN\<close> at which two buffers differ; the claim
  about \<open>compare_results\<close> takes \<open>MN\<close> to be \<open>M * N\<close>.
\<close>

definition mismatches :: "(int \<Rightarrow> 32 word) \<Rightarrow> (int \<Rightarrow> 32 word) \<Rightarrow> int \<Rightarrow> nat" where
  "mismatches C_hw C_ref MN = card {i. 0 \<le> i \<and> i < MN \<and> C_hw i \<noteq> C_ref i}"

text \<open>The mismatch counts of a run of test cases, the random source being threaded through.\<close>

fun case_mismatches :: "(nat \<Rightarrow> nat) \<Rightarrow> nat \<Rightarrow> test_case_t list \<Rightarrow> nat list" where
  "case_mismatches rnd p [] = []"
| "case_mismatches rnd p (tc # tcs) =
     (case test_buffers rnd p tc of
        (C_hw, C_ref, p') \<Rightarrow>
          mismatches C_hw C_ref (sint (tc_M tc) * sint (tc_N tc)) # case_mismatches rnd p' tcs)"

section \<open>Auxiliary notions for the driver proofs\<close>

text \<open>
  \<open>busy_at s k\<close>: the \<open>k\<close>-th load of STATUS from now on will show BUSY.
  \<open>polled s n\<close>: the machine after \<open>n\<close> further loads of STATUS and nothing else.
\<close>

definition busy_at :: "machine \<Rightarrow> nat \<Rightarrow> bool" where
  "busy_at s k = bit (status_feed s (status_reads s + k)) 0"

definition polled :: "machine \<Rightarrow> nat \<Rightarrow> machine" where
  "polled s n =
     s\<lparr>status_reads := status_reads s + n,
       trace := trace s @ map (\<lambda>k. RegRead GEMM_STATUS_REG (status_feed s (status_reads s + k))) [0..<n]\<rparr>"

text \<open>
  Concrete machines. \<open>boot_machine\<close> has every C variable at its initial value;
  \<open>ready_machine\<close> is the same after a completed \<open>gemm_accel_init\<close> as far as the driver's
  flag is concerned; \<open>started_machine\<close> is the state left by a successful start of the
  example configuration on hardware that is idle at the first load of STATUS, busy at the
  second and done from the third on; \<open>faulted_machine\<close> is the state after the same
  start on hardware that reports ERROR from the second load on; \<open>initialized_machine\<close> is
  what \<open>gemm_accel_init\<close> makes of \<open>boot_machine\<close> on idle hardware.
\<close>

definition boot_machine :: "(nat \<Rightarrow> u32) \<Rightarrow> machine" where
  "boot_machine feed =
     \<lparr>regs = (\<lambda>_. 0), status_feed = feed, status_reads = 0, trace = [],
      driver_initialized = False, cycle_count_start = 0, cycle_count = 0, console = []\<rparr>"

definition ready_machine :: "(nat \<Rightarrow> u32) \<Rightarrow> machine" where
  "ready_machine feed = (boot_machine feed)\<lparr>driver_initialized := True\<rparr>"

definition ctrl_machine :: "u32 \<Rightarrow> machine" where
  "ctrl_machine c = (ready_machine (\<lambda>_. 0))\<lparr>regs := (\<lambda>_. c)\<rparr>"

definition example_feed :: "nat \<Rightarrow> u32" where
  "example_feed i = (if i = 0 then 0 else if i = 1 then GEMM_STATUS_BUSY else GEMM_STATUS_DONE)"

definition started_machine :: machine where
  "started_machine = snd (gemm_accel_start (Some example_config) (ready_machine example_feed))"

definition completed_machine :: machine where
  "completed_machine =
     started_machine
       \<lparr>status_reads := 4,
        trace := trace started_machine @
          [RegRead GEMM_STATUS_REG GEMM_STATUS_BUSY, RegRead GEMM_STATUS_REG GEMM_STATUS_DONE,
           RegRead GEMM_STATUS_REG GEMM_STATUS_DONE, CycleSample 200],
        cycle_count := 200,
        console := console started_machine @ [MsgCompleted 100]\<rparr>"

definition fault_feed :: "nat \<Rightarrow> u32" where
  "fault_feed i = (if i = 0 then 0 else GEMM_STATUS_ERROR)"

definition faulted_machine :: machine where
  "faulted_machine = snd (gemm_accel_start (Some example_config) (ready_machine fault_feed))"

definition initialized_machine :: machine where
  "initialized_machine =
     \<lparr>regs = (\<lambda>_. 0)(GEMM_CTRL_REG := GEMM_CTRL_RESET), status_feed = (\<lambda>_. 0), status_reads = 2,
      trace = [RegWrite GEMM_CTRL_REG GEMM_CTRL_RESET, RegRead GEMM_STATUS_REG 0,
               RegRead GEMM_STATUS_REG 0],
      driver_initialized = True, cycle_count_start = 0, cycle_count = 0,
      console = [MsgReset, MsgInitialized]\<rparr>"

section \<open>Auxiliary notions for the oracle proofs\<close>

text \<open>
  \<open>replay ss C\<close> performs the stores \<open>ss\<close> on \<open>C\<close> in order; \<open>row_stores\<close> and
  \<open>matrix_stores\<close> are the stores of the remaining iterations of the \<open>n\<close> loop and of
  the \<open>m\<close> loop, in terms of the signed values of the C variables.
\<close>

definition replay :: "(int \<times> 32 word) list \<Rightarrow> c_buffer \<Rightarrow> c_buffer" where
  "replay ss C =
     C\<lparr>cells := fold (\<lambda>(i, v) c. c(i := v)) ss (cells C), stores := stores C @ ss\<rparr>"

definition row_stores ::
  "(int \<Rightarrow> 'a::len word) \<Rightarrow> (int \<Rightarrow> 'a word) \<Rightarrow> int \<Rightarrow> int \<Rightarrow> int \<Rightarrow> int \<Rightarrow> int \<Rightarrow> int \<Rightarrow> int
     \<Rightarrow> (int \<times> 32 word) list" where
  "row_stores A B K N sa sb sc m n =
     map (\<lambda>j. (wrap_int32 (m * sc + j), word_of_int (dot_product_c A B K sa sb m j))) [n..N - 1]"

definition matrix_stores ::
  "(int \<Rightarrow> 'a::len word) \<Rightarrow> (int \<Rightarrow> 'a word) \<Rightarrow> int \<Rightarrow> int \<Rightarrow> int \<Rightarrow> int \<Rightarrow> int \<Rightarrow> int \<Rightarrow> int
     \<Rightarrow> (int \<times> 32 word) list" where
  "matrix_stores A B M K N sa sb sc m =
     concat (map (\<lambda>i. row_stores A B K N sa sb sc i 0) [m..M - 1])"

text \<open>
  Concrete inputs: the matrices \<open>[[1,2],[3,4]]\<close> and \<open>[[5,6],[7,8]]\<close> of the
  specification's literal scenario, an int16 buffer filled with the lowest value, a buffer
  that holds 7 two cells before its pointer and 1 elsewhere, an empty output buffer, and
  a reference buffer that differs from zero in one cell.
\<close>

definition A_literal :: "int \<Rightarrow> 8 word" where
  "A_literal i = (if i = 0 then 1 else if i = 1 then 2 else if i = 2 then 3 else 4)"

definition B_literal :: "int \<Rightarrow> 8 word" where
  "B_literal i = (if i = 0 then 5 else if i = 1 then 6 else if i = 2 then 7 else 8)"

definition A_lowest :: "int \<Rightarrow> 16 word" where
  "A_lowest i = - 32768"

definition A_before :: "int \<Rightarrow> 8 word" where
  "A_before i = (if i = - 2 then 7 else 1)"

definition C_empty :: c_buffer where
  "C_empty = \<lparr>cells = (\<lambda>_. 0), stores = []\<rparr>"

definition C_ref_one :: "int \<Rightarrow> 32 word" where
  "C_ref_one i = (if i = 2 then 1 else 0)"

section \<open>Properties of the driver\<close>

subsection \<open>Registers, masks and the polling loop\<close>

lemmas reg_defs = GEMM_ACCEL_BASE_ADDR_def GEMM_CTRL_REG_def GEMM_STATUS_REG_def
  GEMM_MATRIX_A_ADDR_REG_def GEMM_MATRIX_B_ADDR_REG_def GEMM_MATRIX_C_ADDR_REG_def
  GEMM_M_DIM_REG_def GEMM_K_DIM_REG_def GEMM_N_DIM_REG_def GEMM_DATA_TYPE_REG_def
  GEMM_STRIDE_A_REG_def GEMM_STRIDE_B_REG_def GEMM_STRIDE_C_REG_def

lemma status_error_bit: "(v AND GEMM_STATUS_ERROR \<noteq> 0) = bit v 2"
  using and_exp_eq_0_iff_not_bit [of v 2] by (simp add: GEMM_STATUS_ERROR_def)

lemma status_done_bit: "(v AND GEMM_STATUS_DONE \<noteq> 0) = bit v 1"
  using and_exp_eq_0_iff_not_bit [of v 1] by (simp add: GEMM_STATUS_DONE_def)

lemma status_busy_bit: "(v AND GEMM_STATUS_BUSY \<noteq> 0) = bit v 0"
  using and_exp_eq_0_iff_not_bit [of v 0] by (simp add: GEMM_STATUS_BUSY_def)

lemma read_status: "REG_READ GEMM_STATUS_REG s = (status_feed s (status_reads s), polled s 1)"
  by (simp add: REG_READ_def polled_def Let_def)

lemma is_busy_eq: "gemm_accel_is_busy s = (busy_at s 0, polled s 1)"
  by (simp add: gemm_accel_is_busy_def read_status status_busy_bit busy_at_def)

lemma map_upt_shift: "map f [a..<a + b] = map (\<lambda>k. f (a + k)) [0..<b]"
  by (induction b) (simp_all add: add.assoc [symmetric])

lemma polled_polled: "polled (polled s a) b = polled s (a + b)"
  by (simp add: polled_def upt_add_eq_append [of 0 a b, simplified] map_upt_shift add.assoc)

lemma busy_at_polled: "busy_at (polled s a) k = busy_at s (a + k)"
  by (simp add: busy_at_def polled_def add.assoc)

lemma while_busy_returns:
  "\<not> busy_at s n \<Longrightarrow> (\<forall>k<n. busy_at s k) \<Longrightarrow> while_busy s = Some (polled s (Suc n))"
proof (induction n arbitrary: s)
  case 0
  then show ?case
    by (subst while_busy.simps) (simp add: is_busy_eq)
next
  case (Suc n)
  have b0: "busy_at s 0" using Suc.prems(2) by simp
  have "while_busy (polled s 1) = Some (polled (polled s 1) (Suc n))"
  proof (rule Suc.IH)
    show "\<not> busy_at (polled s 1) n" using Suc.prems(1) by (simp add: busy_at_polled)
    show "\<forall>k<n. busy_at (polled s 1) k" using Suc.prems(2) by (simp add: busy_at_polled)
  qed
  then show ?case
    by (subst while_busy.simps) (simp add: is_busy_eq b0 polled_polled)
qed

lemma while_busy_SomeD:
  "while_busy s = Some s' \<Longrightarrow>
     \<exists>n. \<not> busy_at s n \<and> (\<forall>k<n. busy_at s k) \<and> s' = polled s (Suc n)"
proof (induction rule: while_busy.raw_induct [rotated 1, consumes 1])
  case (1 w s s')
  show ?case
  proof (cases "busy_at s 0")
    case False
    with 1(2) have "s' = polled s (Suc 0)" by (simp add: is_busy_eq)
    with False show ?thesis by (intro exI [of _ 0]) simp
  next
    case True
    with 1(2) have "w (polled s 1) = Some s'" by (simp add: is_busy_eq)
    from 1(1) [OF this] obtain n where n: "\<not> busy_at (polled s 1) n"
      "\<forall>k<n. busy_at (polled s 1) k" "s' = polled (polled s 1) (Suc n)" by blast
    have "\<forall>k<Suc n. busy_at s k"
    proof (intro allI impI)
      fix k assume "k < Suc n"
      then show "busy_at s k" using True n(2) by (cases k) (auto simp: busy_at_polled)
    qed
    with n(1,3) show ?thesis
      by (intro exI [of _ "Suc n"]) (simp add: busy_at_polled polled_polled)
  qed
qed

lemma while_busy_idle: "\<not> busy_at s 0 \<Longrightarrow> while_busy s = Some (polled s (Suc 0))"
  using while_busy_returns [of s 0] by simp

lemma init_boot: "gemm_accel_init (boot_machine (\<lambda>_. 0)) = Some (0, initialized_machine)"
proof -
  let ?s1 = "REG_WRITE GEMM_CTRL_REG GEMM_CTRL_RESET (boot_machine (\<lambda>_. 0))"
  have 1: "while_busy ?s1 = Some (polled ?s1 (Suc 0))"
    by (rule while_busy_idle) (simp add: busy_at_def REG_WRITE_def boot_machine_def)
  let ?s2 = "printf MsgReset (polled ?s1 (Suc 0))"
  have 2: "while_busy ?s2 = Some (polled ?s2 (Suc 0))"
    by (rule while_busy_idle)
      (simp add: busy_at_def REG_WRITE_def boot_machine_def printf_def polled_def)
  show ?thesis
    by (simp add: gemm_accel_init_def gemm_accel_reset_def 1 2)
      (simp add: boot_machine_def REG_WRITE_def printf_def polled_def initialized_machine_def)
qed

subsection \<open>The entry points\<close>

text \<open>
  \<^bold>\<open>C10.\<close> \<open>gemm_accel_status\<close> is a total mapping of one load of STATUS: an
  uninitialised driver answers \<open>-1\<close> without touching the hardware; otherwise the word
  read decides, ERROR (bit 2) before DONE (bit 1) before BUSY (bit 0), with \<open>2\<close> (idle)
  when none of them is set. Hence \<open>-1\<close> is returned both for an uninitialised driver and
  for a hardware error.
\<close>

theorem gemm_accel_status_mapping:
  "gemm_accel_status s =
     (if \<not> driver_initialized s then (- 1, s)
      else ((if bit (status_feed s (status_reads s)) 2 then - 1
             else if bit (status_feed s (status_reads s)) 1 then 1
             else if bit (status_feed s (status_reads s)) 0 then 0
             else 2),
            s\<lparr>status_reads := Suc (status_reads s),
              trace := trace s @ [RegRead GEMM_STATUS_REG (status_feed s (status_reads s))]\<rparr>))"
  by (simp add: gemm_accel_status_def REG_READ_def Let_def
      status_error_bit status_done_bit status_busy_bit)

theorem gemm_accel_status_mapping_witness:
  "gemm_accel_status (boot_machine (\<lambda>_. 7)) = (- 1, boot_machine (\<lambda>_. 7))
   \<and> fst (gemm_accel_status (ready_machine (\<lambda>_. 7))) = - 1
   \<and> fst (gemm_accel_status (ready_machine (\<lambda>_. 3))) = 1
   \<and> fst (gemm_accel_status (ready_machine (\<lambda>_. 1))) = 0
   \<and> fst (gemm_accel_status (ready_machine (\<lambda>_. 0))) = 2"
  using gemm_accel_status_mapping [of "boot_machine (\<lambda>_. 7)"]
    gemm_accel_status_mapping [of "ready_machine (\<lambda>_. 7)"]
    gemm_accel_status_mapping [of "ready_machine (\<lambda>_. 3)"]
    gemm_accel_status_mapping [of "ready_machine (\<lambda>_. 1)"]
    gemm_accel_status_mapping [of "ready_machine (\<lambda>_. 0)"]
  by (simp add: boot_machine_def ready_machine_def bit_numeral_simps)

text \<open>
  \<^bold>\<open>C7.\<close> \<open>gemm_accel_init\<close> on an initialised driver returns 0 at once and leaves the
  whole machine (registers, trace of accesses, driver variables, console) as it was. In
  particular a second call after any call that returned is such a no-op.
\<close>

theorem gemm_accel_init_idempotent:
  "(driver_initialized s \<longrightarrow> gemm_accel_init s = Some (0, s))
   \<and> (\<forall>r s'. gemm_accel_init s = Some (r, s') \<longrightarrow> gemm_accel_init s' = Some (0, s'))"
proof (intro conjI allI impI)
  show "gemm_accel_init s = Some (0, s)" if "driver_initialized s"
    using that by (simp add: gemm_accel_init_def)
next
  fix r s'
  assume a: "gemm_accel_init s = Some (r, s')"
  have "driver_initialized s'"
  proof (cases "driver_initialized s")
    case True
    with a show ?thesis by (simp add: gemm_accel_init_def)
  next
    case False
    with a show ?thesis
      by (auto simp: gemm_accel_init_def printf_def split: option.splits)
  qed
  then show "gemm_accel_init s' = Some (0, s')"
    by (simp add: gemm_accel_init_def)
qed

theorem gemm_accel_init_idempotent_witness:
  "driver_initialized (ready_machine (\<lambda>_. 1))
   \<and> gemm_accel_init (ready_machine (\<lambda>_. 1)) = Some (0, ready_machine (\<lambda>_. 1))
   \<and> gemm_accel_init (boot_machine (\<lambda>_. 0)) = Some (0, initialized_machine)
   \<and> gemm_accel_init initialized_machine = Some (0, initialized_machine)"
  using gemm_accel_init_idempotent [of "ready_machine (\<lambda>_. 1)"]
    gemm_accel_init_idempotent [of "boot_machine (\<lambda>_. 0)", THEN conjunct2, rule_format, OF init_boot]
    init_boot
  by (simp add: ready_machine_def boot_machine_def)

text \<open>
  \<^bold>\<open>C9.\<close> With the driver initialised, \<open>gemm_accel_start(NULL)\<close> returns \<open>-1\<close>; the
  only effect is the error line on the console. No register is written, and STATUS is not
  even read: the NULL test comes before the busy check and before any look at the
  configuration.
\<close>

theorem gemm_accel_start_null:
  assumes "driver_initialized s"
  shows "gemm_accel_start None s = (- 1, s\<lparr>console := console s @ [ErrNullConfig]\<rparr>)
         \<and> regs (snd (gemm_accel_start None s)) = regs s
         \<and> trace (snd (gemm_accel_start None s)) = trace s
         \<and> status_reads (snd (gemm_accel_start None s)) = status_reads s"
  using assms by (simp add: gemm_accel_start_def printf_def)

theorem gemm_accel_start_null_witness:
  "driver_initialized (ready_machine (\<lambda>_. 1))
   \<and> fst (gemm_accel_start None (ready_machine (\<lambda>_. 1))) = - 1
   \<and> trace (snd (gemm_accel_start None (ready_machine (\<lambda>_. 1)))) = []
   \<and> status_reads (snd (gemm_accel_start None (ready_machine (\<lambda>_. 1)))) = 0"
proof -
  have h: "driver_initialized (ready_machine (\<lambda>_. 1))"
    by (simp add: ready_machine_def boot_machine_def)
  show ?thesis
    using h gemm_accel_start_null [OF h]
    by (simp add: ready_machine_def boot_machine_def)
qed

text \<open>
  \<^bold>\<open>C2.\<close> If a dimension is zero, or the data type is neither int8 nor int16, or the
  driver is uninitialised, or the hardware shows BUSY at the load of STATUS that
  \<open>gemm_accel_start\<close> would make, then the call returns \<open>-1\<close> and makes no store at all:
  the register block is unchanged and the only access that may have been added to the
  trace is that one load of STATUS. The driver's variables are unchanged too.
\<close>

theorem gemm_accel_start_rejects:
  assumes "m_dim cfg = 0 \<or> k_dim cfg = 0 \<or> n_dim cfg = 0
           \<or> (data_type cfg \<noteq> GEMM_DATA_TYPE_INT8 \<and> data_type cfg \<noteq> GEMM_DATA_TYPE_INT16)
           \<or> \<not> driver_initialized s
           \<or> bit (status_feed s (status_reads s)) 0"
  shows "fst (gemm_accel_start (Some cfg) s) = - 1
         \<and> regs (snd (gemm_accel_start (Some cfg) s)) = regs s
         \<and> trace (snd (gemm_accel_start (Some cfg) s)) =
             trace s @ (if driver_initialized s
                        then [RegRead GEMM_STATUS_REG (status_feed s (status_reads s))] else [])
         \<and> driver_initialized (snd (gemm_accel_start (Some cfg) s)) = driver_initialized s
         \<and> cycle_count_start (snd (gemm_accel_start (Some cfg) s)) = cycle_count_start s
         \<and> cycle_count (snd (gemm_accel_start (Some cfg) s)) = cycle_count s"
proof -
  have dt: "data_type cfg \<noteq> GEMM_DATA_TYPE_INT8 \<and> data_type cfg \<noteq> GEMM_DATA_TYPE_INT16
            \<Longrightarrow> data_type cfg > GEMM_DATA_TYPE_INT16"
    unfolding GEMM_DATA_TYPE_INT8_def GEMM_DATA_TYPE_INT16_def
    by (auto simp: word_less_nat_alt word_unat_eq_iff)
  show ?thesis
    using assms dt
    by (auto simp: gemm_accel_start_def gemm_accel_is_busy_def REG_READ_def printf_def
        status_busy_bit Let_def)
qed

theorem gemm_accel_start_rejects_witness:
  "k_dim (example_config\<lparr>k_dim := 0\<rparr>) = 0
   \<and> fst (gemm_accel_start (Some (example_config\<lparr>k_dim := 0\<rparr>)) (ready_machine (\<lambda>_. 0))) = - 1
   \<and> regs (snd (gemm_accel_start (Some (example_config\<lparr>k_dim := 0\<rparr>)) (ready_machine (\<lambda>_. 0))))
       = (\<lambda>_. 0)
   \<and> trace (snd (gemm_accel_start (Some (example_config\<lparr>k_dim := 0\<rparr>)) (ready_machine (\<lambda>_. 0))))
       = [RegRead GEMM_STATUS_REG 0]"
  using gemm_accel_start_rejects [of "example_config\<lparr>k_dim := 0\<rparr>" "ready_machine (\<lambda>_. 0)"]
  by (simp add: ready_machine_def boot_machine_def)

text \<open>
  \<^bold>\<open>C4.\<close> On an initialised driver with the hardware not busy, nonzero dimensions and
  a data type of int8 or int16, \<open>gemm_accel_start\<close> returns 0 after exactly this sequence:
  the busy check, the ten configuration stores in the order of the source with the values
  of the configuration (16-bit and 8-bit fields zero-extended), the store of START to CTRL,
  and then the sample of the cycle counter, which is kept in \<open>cycle_count_start\<close>.
\<close>

theorem gemm_accel_start_programs:
  assumes "driver_initialized s"
    and "\<not> bit (status_feed s (status_reads s)) 0"
    and "m_dim cfg \<noteq> 0" and "k_dim cfg \<noteq> 0" and "n_dim cfg \<noteq> 0"
    and "data_type cfg = GEMM_DATA_TYPE_INT8 \<or> data_type cfg = GEMM_DATA_TYPE_INT16"
  shows "fst (gemm_accel_start (Some cfg) s) = 0
    \<and> trace (snd (gemm_accel_start (Some cfg) s)) =
        trace s @
        [RegRead GEMM_STATUS_REG (status_feed s (status_reads s)),
         RegWrite GEMM_MATRIX_A_ADDR_REG (matrix_a_addr cfg),
         RegWrite GEMM_MATRIX_B_ADDR_REG (matrix_b_addr cfg),
         RegWrite GEMM_MATRIX_C_ADDR_REG (matrix_c_addr cfg),
         RegWrite GEMM_M_DIM_REG (ucast (m_dim cfg)),
         RegWrite GEMM_K_DIM_REG (ucast (k_dim cfg)),
         RegWrite GEMM_N_DIM_REG (ucast (n_dim cfg)),
         RegWrite GEMM_DATA_TYPE_REG (ucast (data_type cfg)),
         RegWrite GEMM_STRIDE_A_REG (ucast (stride_a cfg)),
         RegWrite GEMM_STRIDE_B_REG (ucast (stride_b cfg)),
         RegWrite GEMM_STRIDE_C_REG (ucast (stride_c cfg)),
         RegWrite GEMM_CTRL_REG GEMM_CTRL_START,
         CycleSample (cycle_count s + 100)]
    \<and> regs (snd (gemm_accel_start (Some cfg) s)) =
        (regs s)
          (GEMM_MATRIX_A_ADDR_REG := matrix_a_addr cfg,
           GEMM_MATRIX_B_ADDR_REG := matrix_b_addr cfg,
           GEMM_MATRIX_C_ADDR_REG := matrix_c_addr cfg,
           GEMM_M_DIM_REG := ucast (m_dim cfg),
           GEMM_K_DIM_REG := ucast (k_dim cfg),
           GEMM_N_DIM_REG := ucast (n_dim cfg),
           GEMM_DATA_TYPE_REG := ucast (data_type cfg),
           GEMM_STRIDE_A_REG := ucast (stride_a cfg),
           GEMM_STRIDE_B_REG := ucast (stride_b cfg),
           GEMM_STRIDE_C_REG := ucast (stride_c cfg),
           GEMM_CTRL_REG := GEMM_CTRL_START)
    \<and> cycle_count_start (snd (gemm_accel_start (Some cfg) s)) = cycle_count s + 100
    \<and> cycle_count (snd (gemm_accel_start (Some cfg) s)) = cycle_count s + 100"
proof -
  have dt: "\<not> data_type cfg > GEMM_DATA_TYPE_INT16"
    using assms(6) unfolding GEMM_DATA_TYPE_INT8_def GEMM_DATA_TYPE_INT16_def
    by (auto simp: word_less_nat_alt)
  show ?thesis
    using assms(1-5) dt
    by (simp add: gemm_accel_start_def gemm_accel_is_busy_def REG_READ_def REG_WRITE_def
        printf_def gemm_accel_get_cycle_count_def status_busy_bit Let_def)
qed

theorem gemm_accel_start_programs_witness:
  "driver_initialized (ready_machine (\<lambda>_. 0))
   \<and> \<not> bit (status_feed (ready_machine (\<lambda>_. 0)) (status_reads (ready_machine (\<lambda>_. 0)))) 0
   \<and> m_dim example_config \<noteq> 0 \<and> k_dim example_config \<noteq> 0 \<and> n_dim example_config \<noteq> 0
   \<and> data_type example_config = GEMM_DATA_TYPE_INT8
   \<and> fst (gemm_accel_start (Some example_config) (ready_machine (\<lambda>_. 0))) = 0
   \<and> trace (snd (gemm_accel_start (Some example_config) (ready_machine (\<lambda>_. 0)))) =
        [RegRead 0x40000004 0,
         RegWrite 0x40000008 0x80000000,
         RegWrite 0x4000000C 0x80001000,
         RegWrite 0x40000010 0x80002000,
         RegWrite 0x40000014 8,
         RegWrite 0x40000018 8,
         RegWrite 0x4000001C 8,
         RegWrite 0x40000020 0,
         RegWrite 0x40000024 8,
         RegWrite 0x40000028 8,
         RegWrite 0x4000002C 8,
         RegWrite 0x40000000 1,
         CycleSample 100]
   \<and> cycle_count_start (snd (gemm_accel_start (Some example_config) (ready_machine (\<lambda>_. 0)))) = 100"
proof -
  have h: "driver_initialized (ready_machine (\<lambda>_. 0))"
    "\<not> bit (status_feed (ready_machine (\<lambda>_. 0)) (status_reads (ready_machine (\<lambda>_. 0)))) 0"
    "m_dim example_config \<noteq> 0" "k_dim example_config \<noteq> 0" "n_dim example_config \<noteq> 0"
    "data_type example_config = GEMM_DATA_TYPE_INT8 \<or> data_type example_config = GEMM_DATA_TYPE_INT16"
    by (simp_all add: ready_machine_def boot_machine_def example_config_def gemm_create_config_def)
  show ?thesis
    using h(1-5) gemm_accel_start_programs [OF h]
    by (simp add: ready_machine_def boot_machine_def example_config_def gemm_create_config_def
        reg_defs GEMM_CTRL_START_def GEMM_DATA_TYPE_INT8_def)
qed

text \<open>
  \<^bold>\<open>C8.\<close> \<open>gemm_accel_set_interrupt_enable\<close> loads CTRL and stores it back with bit 2
  (IRQ\_EN) equal to the argument and every other bit as it was loaded; no other register
  changes.
\<close>

theorem gemm_accel_set_interrupt_enable_frame:
  "(\<forall>n. bit (regs (gemm_accel_set_interrupt_enable enable s) GEMM_CTRL_REG) n =
          (if n = 2 then enable else bit (regs s GEMM_CTRL_REG) n))
   \<and> (\<forall>a. a \<noteq> GEMM_CTRL_REG \<longrightarrow> regs (gemm_accel_set_interrupt_enable enable s) a = regs s a)
   \<and> trace (gemm_accel_set_interrupt_enable enable s) =
       trace s @ [RegRead GEMM_CTRL_REG (regs s GEMM_CTRL_REG),
                  RegWrite GEMM_CTRL_REG
                    (regs (gemm_accel_set_interrupt_enable enable s) GEMM_CTRL_REG)]"
proof -
  have ne: "GEMM_CTRL_REG \<noteq> GEMM_STATUS_REG" by (simp add: reg_defs)
  have e: "GEMM_CTRL_IRQ_EN = 2 ^ 2" by (simp add: GEMM_CTRL_IRQ_EN_def)
  have b: "bit (GEMM_CTRL_IRQ_EN) n = (n = 2)" for n
    unfolding e bit_exp_iff by auto
  show ?thesis
    by (auto simp: gemm_accel_set_interrupt_enable_def REG_READ_def REG_WRITE_def ne
        bit_or_iff bit_and_iff bit_not_iff b dest: bit_imp_le_length)
qed

theorem gemm_accel_set_interrupt_enable_frame_witness:
  "(2::nat) \<noteq> 0 \<and> GEMM_M_DIM_REG \<noteq> GEMM_CTRL_REG
   \<and> bit (regs (gemm_accel_set_interrupt_enable False (ctrl_machine 7)) GEMM_CTRL_REG) 0
   \<and> \<not> bit (regs (gemm_accel_set_interrupt_enable False (ctrl_machine 7)) GEMM_CTRL_REG) 2
   \<and> bit (regs (gemm_accel_set_interrupt_enable True (ctrl_machine 3)) GEMM_CTRL_REG) 2
   \<and> regs (gemm_accel_set_interrupt_enable False (ctrl_machine 7)) GEMM_M_DIM_REG = 7"
proof -
  note off = gemm_accel_set_interrupt_enable_frame [of False "ctrl_machine 7"]
  note on = gemm_accel_set_interrupt_enable_frame [of True "ctrl_machine 3"]
  have ne: "GEMM_M_DIM_REG \<noteq> GEMM_CTRL_REG" by (simp add: reg_defs)
  have r: "regs (ctrl_machine c) a = c" for c a
    by (simp add: ctrl_machine_def ready_machine_def boot_machine_def)
  show ?thesis
    using off [THEN conjunct1, THEN spec, of 0] off [THEN conjunct1, THEN spec, of 2]
      on [THEN conjunct1, THEN spec, of 2]
      off [THEN conjunct2, THEN conjunct1, THEN spec, of GEMM_M_DIM_REG] ne
    by (simp add: r)
qed

subsection \<open>Waiting for completion\<close>

lemma has_error_eq:
  "gemm_accel_has_error s = (bit (status_feed s (status_reads s)) 2, polled s 1)"
  by (simp add: gemm_accel_has_error_def read_status status_error_bit)

lemma polled_simps [simp]:
  "regs (polled s n) = regs s" "status_feed (polled s n) = status_feed s"
  "status_reads (polled s n) = status_reads s + n"
  "driver_initialized (polled s n) = driver_initialized s"
  "cycle_count_start (polled s n) = cycle_count_start s"
  "cycle_count (polled s n) = cycle_count s"
  "console (polled s n) = console s"
  by (simp_all add: polled_def)

lemma trace_polled:
  "trace (polled s n) =
     trace s @ map (\<lambda>k. RegRead GEMM_STATUS_REG (status_feed s (status_reads s + k))) [0..<n]"
  by (simp add: polled_def)

lemma gemm_accel_wait_returns:
  assumes "driver_initialized s" and "\<forall>k<n. busy_at s k" and "\<not> busy_at s n"
  shows "gemm_accel_wait s =
     Some (if bit (status_feed s (status_reads s + Suc n)) 2
           then (- 1, printf ErrOperationFailed (polled s (Suc (Suc n))))
           else (0, printf (MsgCompleted (cycle_count s + 100 - cycle_count_start s))
                      ((polled s (Suc (Suc n)))
                         \<lparr>cycle_count := cycle_count s + 100,
                          trace := trace (polled s (Suc (Suc n)))
                                     @ [CycleSample (cycle_count s + 100)]\<rparr>)))"
proof -
  have w: "while_busy s = Some (polled s (Suc n))"
    using assms(2,3) by (intro while_busy_returns) simp_all
  have p: "polled (polled s (Suc n)) (Suc 0) = polled s (Suc (Suc n))"
    by (simp add: polled_polled)
  show ?thesis
    using assms(1)
    by (simp add: gemm_accel_wait_def w has_error_eq p gemm_accel_get_cycle_count_def Let_def)
qed

lemma start_example:
  "\<not> bit (feed 0) 0 \<Longrightarrow>
   snd (gemm_accel_start (Some example_config) (ready_machine feed)) =
     \<lparr>regs = (\<lambda>_. 0)
          (GEMM_MATRIX_A_ADDR_REG := 0x80000000, GEMM_MATRIX_B_ADDR_REG := 0x80001000,
           GEMM_MATRIX_C_ADDR_REG := 0x80002000, GEMM_M_DIM_REG := 8, GEMM_K_DIM_REG := 8,
           GEMM_N_DIM_REG := 8, GEMM_DATA_TYPE_REG := 0, GEMM_STRIDE_A_REG := 8,
           GEMM_STRIDE_B_REG := 8, GEMM_STRIDE_C_REG := 8, GEMM_CTRL_REG := 1),
      status_feed = feed, status_reads = 1,
      trace = [RegRead GEMM_STATUS_REG (feed 0),
         RegWrite GEMM_MATRIX_A_ADDR_REG 0x80000000,
         RegWrite GEMM_MATRIX_B_ADDR_REG 0x80001000,
         RegWrite GEMM_MATRIX_C_ADDR_REG 0x80002000,
         RegWrite GEMM_M_DIM_REG 8,
         RegWrite GEMM_K_DIM_REG 8,
         RegWrite GEMM_N_DIM_REG 8,
         RegWrite GEMM_DATA_TYPE_REG 0,
         RegWrite GEMM_STRIDE_A_REG 8,
         RegWrite GEMM_STRIDE_B_REG 8,
         RegWrite GEMM_STRIDE_C_REG 8,
         RegWrite GEMM_CTRL_REG 1,
         CycleSample 100],
      driver_initialized = True, cycle_count_start = 100, cycle_count = 100,
      console = [MsgStarted 8 8 8 ''int8'']\<rparr>"
  by (simp add: gemm_accel_start_def ready_machine_def boot_machine_def
      example_config_def gemm_create_config_def gemm_accel_is_busy_def REG_READ_def
      REG_WRITE_def printf_def gemm_accel_get_cycle_count_def Let_def status_busy_bit
      GEMM_DATA_TYPE_INT8_def GEMM_DATA_TYPE_INT16_def GEMM_CTRL_START_def)

lemma faulted_machine_polls:
  "driver_initialized faulted_machine"
  "\<not> bit (status_feed faulted_machine (status_reads faulted_machine + 0)) 0"
  "bit (status_feed faulted_machine (status_reads faulted_machine + Suc 0)) 2"
  "cycle_count faulted_machine = 100"
  "console faulted_machine = [MsgStarted 8 8 8 ''int8'']"
  by (simp_all add: faulted_machine_def start_example fault_feed_def GEMM_STATUS_ERROR_def
      bit_numeral_simps)

lemma started_machine_eq:
  "started_machine =
     \<lparr>regs = (\<lambda>_. 0)
          (GEMM_MATRIX_A_ADDR_REG := 0x80000000, GEMM_MATRIX_B_ADDR_REG := 0x80001000,
           GEMM_MATRIX_C_ADDR_REG := 0x80002000, GEMM_M_DIM_REG := 8, GEMM_K_DIM_REG := 8,
           GEMM_N_DIM_REG := 8, GEMM_DATA_TYPE_REG := 0, GEMM_STRIDE_A_REG := 8,
           GEMM_STRIDE_B_REG := 8, GEMM_STRIDE_C_REG := 8, GEMM_CTRL_REG := 1),
      status_feed = example_feed, status_reads = 1,
      trace = [RegRead GEMM_STATUS_REG 0,
         RegWrite GEMM_MATRIX_A_ADDR_REG 0x80000000,
         RegWrite GEMM_MATRIX_B_ADDR_REG 0x80001000,
         RegWrite GEMM_MATRIX_C_ADDR_REG 0x80002000,
         RegWrite GEMM_M_DIM_REG 8,
         RegWrite GEMM_K_DIM_REG 8,
         RegWrite GEMM_N_DIM_REG 8,
         RegWrite GEMM_DATA_TYPE_REG 0,
         RegWrite GEMM_STRIDE_A_REG 8,
         RegWrite GEMM_STRIDE_B_REG 8,
         RegWrite GEMM_STRIDE_C_REG 8,
         RegWrite GEMM_CTRL_REG 1,
         CycleSample 100],
      driver_initialized = True, cycle_count_start = 100, cycle_count = 100,
      console = [MsgStarted 8 8 8 ''int8'']\<rparr>"
  by (simp add: started_machine_def gemm_accel_start_def ready_machine_def boot_machine_def
      example_config_def gemm_create_config_def gemm_accel_is_busy_def REG_READ_def
      REG_WRITE_def printf_def gemm_accel_get_cycle_count_def example_feed_def Let_def
      GEMM_DATA_TYPE_INT8_def GEMM_DATA_TYPE_INT16_def GEMM_CTRL_START_def GEMM_STATUS_BUSY_def)

lemma started_machine_polls:
  "driver_initialized started_machine"
  "\<forall>k<1. bit (status_feed started_machine (status_reads started_machine + k)) 0"
  "\<not> bit (status_feed started_machine (status_reads started_machine + 1)) 0"
  "\<not> bit (status_feed started_machine (status_reads started_machine + Suc 1)) 2"
  by (simp_all add: started_machine_eq example_feed_def GEMM_STATUS_BUSY_def
      GEMM_STATUS_DONE_def bit_numeral_simps)

lemma wait_started: "gemm_accel_wait started_machine = Some (0, completed_machine)"
proof -
  have "gemm_accel_wait started_machine =
     Some (if bit (status_feed started_machine (status_reads started_machine + Suc 1)) 2
           then (- 1, printf ErrOperationFailed (polled started_machine (Suc (Suc 1))))
           else (0, printf (MsgCompleted (cycle_count started_machine + 100 - cycle_count_start started_machine))
                      ((polled started_machine (Suc (Suc 1)))
                         \<lparr>cycle_count := cycle_count started_machine + 100,
                          trace := trace (polled started_machine (Suc (Suc 1)))
                                     @ [CycleSample (cycle_count started_machine + 100)]\<rparr>)))"
    using started_machine_polls(1-3) by (intro gemm_accel_wait_returns) (simp_all add: busy_at_def)
  also have "\<dots> = Some (0, completed_machine)"
    using started_machine_polls(4)
    by (simp add: completed_machine_def polled_def printf_def started_machine_eq
        example_feed_def upt_rec numeral_3_eq_3 numeral_2_eq_2)
  finally show ?thesis .
qed

text \<open>
  \<^bold>\<open>C3\<close>, as stated, says that \<open>gemm_accel_wait\<close> returns the elapsed cycle count. It
  does not: after the example operation has been started and has completed, the elapsed
  count is 100 and the value returned is 0. The count only appears in the console line.
\<close>

theorem gemm_accel_wait_elapsed_counterexample:
  "gemm_accel_wait started_machine = Some (0, completed_machine)
   \<and> cycle_count_start started_machine = 100
   \<and> cycle_count completed_machine = 200
   \<and> cycle_count completed_machine - cycle_count_start started_machine = 100
   \<and> console completed_machine = [MsgStarted 8 8 8 ''int8'', MsgCompleted 100]"
  using wait_started by (simp add: completed_machine_def started_machine_eq)

text \<open>
  \<^bold>\<open>C3\<close>, amended. Let the driver be initialised and let the hardware show BUSY at the
  next \<open>n\<close> loads of STATUS and not at the one after. Then \<open>gemm_accel_wait\<close> returns.
  If the following load (the error check) has ERROR clear, it samples the cycle counter as
  its last action, prints the difference \<open>end - start\<close> (32-bit, \<open>start\<close> being
  \<open>cycle_count_start\<close>, the sample kept by the last successful \<open>gemm_accel_start\<close>) and
  returns 0. If that load has ERROR set, it returns \<open>-1\<close> without sampling.
\<close>

theorem gemm_accel_wait_outcome:
  assumes "driver_initialized s"
    and "\<forall>k<n. bit (status_feed s (status_reads s + k)) 0"
    and "\<not> bit (status_feed s (status_reads s + n)) 0"
  shows "(\<not> bit (status_feed s (status_reads s + Suc n)) 2 \<longrightarrow>
            (\<exists>s'. gemm_accel_wait s = Some (0, s')
               \<and> cycle_count s' = cycle_count s + 100
               \<and> last (trace s') = CycleSample (cycle_count s')
               \<and> cycle_count_start s' = cycle_count_start s
               \<and> console s' = console s @ [MsgCompleted (cycle_count s' - cycle_count_start s)]))
       \<and> (bit (status_feed s (status_reads s + Suc n)) 2 \<longrightarrow>
            (\<exists>s'. gemm_accel_wait s = Some (- 1, s')
               \<and> cycle_count s' = cycle_count s
               \<and> console s' = console s @ [ErrOperationFailed]))"
proof -
  have "\<forall>k<n. busy_at s k" "\<not> busy_at s n"
    using assms(2,3) by (simp_all add: busy_at_def)
  from gemm_accel_wait_returns [OF assms(1) this]
  show ?thesis by (simp add: printf_def)
qed

theorem gemm_accel_wait_outcome_witness:
  "driver_initialized started_machine
   \<and> bit (status_feed started_machine (status_reads started_machine + 0)) 0
   \<and> \<not> bit (status_feed started_machine (status_reads started_machine + 1)) 0
   \<and> \<not> bit (status_feed started_machine (status_reads started_machine + Suc 1)) 2
   \<and> (\<exists>s'. gemm_accel_wait started_machine = Some (0, s')
         \<and> cycle_count s' = 200
         \<and> console s' = [MsgStarted 8 8 8 ''int8'', MsgCompleted 100])
   \<and> driver_initialized faulted_machine
   \<and> \<not> bit (status_feed faulted_machine (status_reads faulted_machine + 0)) 0
   \<and> bit (status_feed faulted_machine (status_reads faulted_machine + Suc 0)) 2
   \<and> (\<exists>s'. gemm_accel_wait faulted_machine = Some (- 1, s')
         \<and> cycle_count s' = 100
         \<and> console s' = [MsgStarted 8 8 8 ''int8'', ErrOperationFailed])"
proof -
  have c: "cycle_count started_machine = 100" "cycle_count_start started_machine = 100"
    "console started_machine = [MsgStarted 8 8 8 ''int8'']"
    by (simp_all add: started_machine_eq)
  have d: "\<exists>s'. gemm_accel_wait started_machine = Some (0, s')
         \<and> cycle_count s' = 200
         \<and> console s' = [MsgStarted 8 8 8 ''int8'', MsgCompleted 100]"
    using started_machine_polls gemm_accel_wait_outcome [OF started_machine_polls(1-3)]
    by (auto simp: c)
  have e: "\<exists>s'. gemm_accel_wait faulted_machine = Some (- 1, s')
         \<and> cycle_count s' = 100
         \<and> console s' = [MsgStarted 8 8 8 ''int8'', ErrOperationFailed]"
    using faulted_machine_polls gemm_accel_wait_outcome [of faulted_machine 0]
    by auto
  show ?thesis
    using started_machine_polls faulted_machine_polls(1-3) d e by simp
qed

lemma start_example_result:
  "\<not> bit (feed 0) 0 \<Longrightarrow> fst (gemm_accel_start (Some example_config) (ready_machine feed)) = 0"
  by (simp add: gemm_accel_start_def ready_machine_def boot_machine_def
      example_config_def gemm_create_config_def gemm_accel_is_busy_def REG_READ_def
      REG_WRITE_def printf_def gemm_accel_get_cycle_count_def Let_def status_busy_bit
      GEMM_DATA_TYPE_INT8_def GEMM_DATA_TYPE_INT16_def)

lemma start_keeps_initialized:
  "fst (gemm_accel_start config s0) = 0 \<Longrightarrow> driver_initialized (snd (gemm_accel_start config s0))"
  by (auto simp: gemm_accel_start_def gemm_accel_is_busy_def REG_READ_def REG_WRITE_def
      printf_def gemm_accel_get_cycle_count_def Let_def
      split: option.splits if_splits)

lemma status_not_busy:
  "driver_initialized s \<Longrightarrow> \<not> bit (status_feed s (status_reads s + n)) 0
     \<Longrightarrow> fst (gemm_accel_status (s\<lparr>status_reads := status_reads s + n\<rparr>)) \<noteq> 0"
  by (simp add: gemm_accel_status_def REG_READ_def Let_def
      status_error_bit status_done_bit status_busy_bit)

text \<open>
  \<^bold>\<open>C5.\<close> Whenever \<open>gemm_accel_wait\<close> returns after a successful \<open>gemm_accel_start\<close>, or
  on any initialised driver, and whatever its result, its polling loop has made \<open>n + 1\<close>
  loads of STATUS for some \<open>n\<close>, the first \<open>n\<close> with BUSY set and the last one with BUSY
  clear; the only accesses after it are the load for the error check and, on success, the
  cycle sample. So the driver does not return while the hardware shows BUSY: the word last
  seen by the loop is one on which \<open>gemm_accel_status\<close> does not answer 0 (busy). A
  successful start leaves the driver initialised, so this covers every start followed by
  a wait.
\<close>

theorem gemm_accel_wait_not_busy:
  "(driver_initialized s \<and> gemm_accel_wait s = Some (r, s') \<longrightarrow>
      (\<exists>n. (\<forall>k<n. bit (status_feed s (status_reads s + k)) 0)
          \<and> \<not> bit (status_feed s (status_reads s + n)) 0
          \<and> fst (gemm_accel_status (s\<lparr>status_reads := status_reads s + n\<rparr>)) \<noteq> 0
          \<and> status_reads s' = status_reads s + n + 2
          \<and> trace s' =
              trace s
              @ map (\<lambda>k. RegRead GEMM_STATUS_REG (status_feed s (status_reads s + k))) [0..<Suc n]
              @ RegRead GEMM_STATUS_REG (status_feed s (status_reads s + Suc n))
              # (if r = 0 then [CycleSample (cycle_count s + 100)] else [])))
   \<and> (fst (gemm_accel_start config s0) = 0 \<longrightarrow>
        driver_initialized (snd (gemm_accel_start config s0)))"
proof (intro conjI impI)
  assume a: "driver_initialized s \<and> gemm_accel_wait s = Some (r, s')"
  then obtain s1 where s1: "while_busy s = Some s1"
    by (auto simp: gemm_accel_wait_def split: option.splits)
  from while_busy_SomeD [OF this] obtain n where
    n: "\<not> busy_at s n" "\<forall>k<n. busy_at s k" by blast
  from gemm_accel_wait_returns [OF conjunct1 [OF a] n(2,1)] a
  have "trace s' =
          trace s
          @ map (\<lambda>k. RegRead GEMM_STATUS_REG (status_feed s (status_reads s + k))) [0..<Suc n]
          @ RegRead GEMM_STATUS_REG (status_feed s (status_reads s + Suc n))
          # (if r = 0 then [CycleSample (cycle_count s + 100)] else [])"
    and "status_reads s' = status_reads s + n + 2"
    by (auto simp: printf_def trace_polled split: if_splits)
  moreover have "fst (gemm_accel_status (s\<lparr>status_reads := status_reads s + n\<rparr>)) \<noteq> 0"
    using a n(1) by (intro status_not_busy) (simp_all add: busy_at_def)
  ultimately show "\<exists>n. (\<forall>k<n. bit (status_feed s (status_reads s + k)) 0)
          \<and> \<not> bit (status_feed s (status_reads s + n)) 0
          \<and> fst (gemm_accel_status (s\<lparr>status_reads := status_reads s + n\<rparr>)) \<noteq> 0
          \<and> status_reads s' = status_reads s + n + 2
          \<and> trace s' =
              trace s
              @ map (\<lambda>k. RegRead GEMM_STATUS_REG (status_feed s (status_reads s + k))) [0..<Suc n]
              @ RegRead GEMM_STATUS_REG (status_feed s (status_reads s + Suc n))
              # (if r = 0 then [CycleSample (cycle_count s + 100)] else [])"
    using n unfolding busy_at_def by blast
next
  assume "fst (gemm_accel_start config s0) = 0"
  then show "driver_initialized (snd (gemm_accel_start config s0))"
    by (rule start_keeps_initialized)
qed

theorem gemm_accel_wait_not_busy_witness:
  "fst (gemm_accel_start (Some example_config) (ready_machine example_feed)) = 0
   \<and> driver_initialized started_machine
   \<and> gemm_accel_wait started_machine = Some (0, completed_machine)
   \<and> (\<exists>n. \<not> bit (status_feed started_machine (status_reads started_machine + n)) 0
          \<and> fst (gemm_accel_status
                   (started_machine\<lparr>status_reads := status_reads started_machine + n\<rparr>)) \<noteq> 0
          \<and> status_reads completed_machine = status_reads started_machine + n + 2)"
proof -
  have r: "fst (gemm_accel_start (Some example_config) (ready_machine example_feed)) = 0"
    by (rule start_example_result) (simp add: example_feed_def)
  from gemm_accel_wait_not_busy [of _ _ _ "Some example_config" "ready_machine example_feed",
      THEN conjunct2, rule_format, OF r]
  have i: "driver_initialized started_machine"
    by (simp add: started_machine_def)
  have h: "driver_initialized started_machine
           \<and> gemm_accel_wait started_machine = Some (0, completed_machine)"
    using i wait_started by simp
  from gemm_accel_wait_not_busy [of started_machine 0 completed_machine, THEN conjunct1, rule_format, OF h]
  show ?thesis using r h by blast
qed

section \<open>Properties of the oracle\<close>

subsection \<open>32-bit arithmetic\<close>

lemma sint_word_of_int_32: "sint (word_of_int x :: 32 word) = wrap_int32 x"
  by (simp add: int_word_sint wrap_int32_def)

lemma wrap_int32_fits: "fits_int x \<Longrightarrow> wrap_int32 x = x"
  by (simp add: wrap_int32_def fits_int_def)

lemma sint_index: "sint (a * b + c) = wrap_int32 (sint a * sint b + sint c)" for a b c :: c_int
proof -
  have "a * b + c = word_of_int (sint a * sint b + sint c)"
    by (simp add: wi_hom_syms)
  then show ?thesis
    by (simp only: sint_word_of_int_32)
qed

lemma sint_of_nat_small: "c < 2 ^ 31 \<Longrightarrow> sint (of_nat c :: 32 word) = int c"
proof -
  assume c: "c < 2 ^ 31"
  have "sint (word_of_int (int c) :: 32 word) = wrap_int32 (int c)"
    by (rule sint_word_of_int_32)
  also have "\<dots> = int c"
    using c by (simp add: wrap_int32_def)
  finally show ?thesis by simp
qed

subsection \<open>The reference model\<close>

lemma int_interval_step: "k < K \<Longrightarrow> {k..<K} = insert k {k + 1..<K}" for k K :: int
  by auto

lemma mm_k_loop_sum:
  "mm_k_loop A B K sa sb m n k acc =
     acc + word_of_int
       (\<Sum>j = sint k..<sint K.
           sint (A (wrap_int32 (sint m * sint sa + j))) * sint (B (wrap_int32 (j * sint sb + sint n))))"
proof (induction A B K sa sb m n k acc rule: mm_k_loop.induct)
  case (1 A B K sa sb m n k acc)
  let ?f = "\<lambda>j. sint (A (wrap_int32 (sint m * sint sa + j))) * sint (B (wrap_int32 (j * sint sb + sint n)))"
  show ?case
  proof (cases "k <s K")
    case True
    then have lt: "sint k < sint K" by (simp add: word_sless_alt)
    have "mm_k_loop A B K sa sb m n k acc =
            mm_k_loop A B K sa sb m n (k + 1)
              (acc + scast (A (sint (m * sa + k))) * scast (B (sint (k * sb + n))))"
      using True by (subst mm_k_loop.simps) simp
    also have "\<dots> = acc + scast (A (sint (m * sa + k))) * scast (B (sint (k * sb + n)))
        + word_of_int (\<Sum>j = sint k + 1..<sint K. ?f j)"
      using "1.IH" [OF True] by (simp only: sint_succ [OF True])
    also have "\<dots> = acc + word_of_int (\<Sum>j = sint k..<sint K. ?f j)"
    proof -
      have "(\<Sum>j = sint k..<sint K. ?f j) = ?f (sint k) + (\<Sum>j = sint k + 1..<sint K. ?f j)"
        unfolding int_interval_step [OF lt] by (subst sum.insert) simp_all
      then show ?thesis
        by (simp only: scast_eq wi_hom_syms(1,3) add.assoc sint_index)
    qed
    finally show ?thesis .
  next
    case False
    then have "\<not> sint k < sint K" by (simp add: word_sless_alt)
    with False show ?thesis by (subst mm_k_loop.simps) simp
  qed
qed

lemma mm_k_loop_dot:
  "mm_k_loop A B K sa sb m n 0 0 =
     word_of_int (dot_product_c A B (sint K) (sint sa) (sint sb) (sint m) (sint n))"
  by (simp add: mm_k_loop_sum dot_product_c_def)

lemma replay_Nil: "replay [] C = C"
  by (simp add: replay_def)

lemma replay_append: "replay (xs @ ys) C = replay ys (replay xs C)"
  by (simp add: replay_def)

lemma replay_Cons: "replay ((i, v) # ss) C = replay ss (store i v C)"
  by (simp add: replay_def store_def)

lemma mm_n_loop_replay:
  "mm_n_loop A B K N sa sb sc m n C =
     replay (row_stores A B (sint K) (sint N) (sint sa) (sint sb) (sint sc) (sint m) (sint n)) C"
proof (induction A B K N sa sb sc m n C rule: mm_n_loop.induct)
  case (1 A B K N sa sb sc m n C)
  show ?case
  proof (cases "n <s N")
    case True
    then have lt: "sint n < sint N" by (simp add: word_sless_alt)
    then have r: "[sint n..sint N - 1] = sint n # [sint n + 1..sint N - 1]"
      by (intro upto_rec1) simp
    show ?thesis
      using True "1.IH" [OF True]
      by (subst mm_n_loop.simps)
        (simp add: row_stores_def r replay_Cons mm_k_loop_dot sint_succ [OF True] sint_index)
  next
    case False
    then have "\<not> sint n < sint N" by (simp add: word_sless_alt)
    with False show ?thesis
      by (subst mm_n_loop.simps) (simp add: row_stores_def replay_Nil)
  qed
qed

lemma mm_m_loop_replay:
  "mm_m_loop A B M K N sa sb sc m C =
     replay (matrix_stores A B (sint M) (sint K) (sint N) (sint sa) (sint sb) (sint sc) (sint m)) C"
proof (induction A B M K N sa sb sc m C rule: mm_m_loop.induct)
  case (1 A B M K N sa sb sc m C)
  show ?case
  proof (cases "m <s M")
    case True
    then have lt: "sint m < sint M" by (simp add: word_sless_alt)
    then have r: "[sint m..sint M - 1] = sint m # [sint m + 1..sint M - 1]"
      by (intro upto_rec1) simp
    show ?thesis
      using True "1.IH" [OF True]
      by (subst mm_m_loop.simps)
        (simp add: matrix_stores_def r replay_append mm_n_loop_replay sint_succ [OF True])
  next
    case False
    then have "\<not> sint m < sint M" by (simp add: word_sless_alt)
    with False show ?thesis
      by (subst mm_m_loop.simps) (simp add: matrix_stores_def replay_Nil)
  qed
qed

text \<open>What a sequence of stores leaves in a cell.\<close>

lemma fold_upd_other:
  "i \<notin> fst ` set ss \<Longrightarrow> fold (\<lambda>(j, v) c. c(j := v)) ss c i = c i"
  by (induction ss arbitrary: c) (auto split: prod.splits)

lemma fold_upd_last:
  "i \<notin> fst ` set ys \<Longrightarrow> fold (\<lambda>(j, v) c. c(j := v)) (xs @ (i, v) # ys) c i = v"
  by (simp add: fold_upd_other)

lemma cells_replay: "cells (replay ss C) = fold (\<lambda>(i, v) c. c(i := v)) ss (cells C)"
  by (simp add: replay_def)

lemma stores_replay: "stores (replay ss C) = stores C @ ss"
  by (simp add: replay_def)

lemma matrix_stores_split:
  assumes "0 \<le> m" "m < M" "0 \<le> n" "n < N"
  shows "matrix_stores A B M K N sa sb sc 0 =
           (concat (map (\<lambda>i. row_stores A B K N sa sb sc i 0) [0..m - 1])
              @ map (\<lambda>j. (wrap_int32 (m * sc + j), word_of_int (dot_product_c A B K sa sb m j)))
                  [0..n - 1])
           @ (wrap_int32 (m * sc + n), word_of_int (dot_product_c A B K sa sb m n))
           # (map (\<lambda>j. (wrap_int32 (m * sc + j), word_of_int (dot_product_c A B K sa sb m j)))
                [n + 1..N - 1]
              @ concat (map (\<lambda>i. row_stores A B K N sa sb sc i 0) [m + 1..M - 1]))"
proof -
  have 1: "[0..M - 1] = [0..m - 1] @ m # [m + 1..M - 1]"
    using assms by (intro upto_split3) simp_all
  have 2: "[0..N - 1] = [0..n - 1] @ n # [n + 1..N - 1]"
    using assms by (intro upto_split3) simp_all
  show ?thesis
    by (simp add: matrix_stores_def 1) (simp add: row_stores_def 2)
qed

lemma fst_set_matrix_stores:
  "fst ` set (matrix_stores A B M K N sa sb sc 0) =
     {i. \<exists>m n. 0 \<le> m \<and> m < M \<and> 0 \<le> n \<and> n < N \<and> i = wrap_int32 (m * sc + n)}"
proof (intro set_eqI iffI)
  fix i
  assume "i \<in> fst ` set (matrix_stores A B M K N sa sb sc 0)"
  then obtain m n where "0 \<le> m" "m \<le> M - 1" "0 \<le> n" "n \<le> N - 1" "i = wrap_int32 (m * sc + n)"
    by (auto simp: matrix_stores_def row_stores_def)
  then have "0 \<le> m \<and> m < M \<and> 0 \<le> n \<and> n < N \<and> i = wrap_int32 (m * sc + n)" by simp
  then show "i \<in> {i. \<exists>m n. 0 \<le> m \<and> m < M \<and> 0 \<le> n \<and> n < N \<and> i = wrap_int32 (m * sc + n)}"
    by blast
next
  fix i
  assume "i \<in> {i. \<exists>m n. 0 \<le> m \<and> m < M \<and> 0 \<le> n \<and> n < N \<and> i = wrap_int32 (m * sc + n)}"
  then obtain m n where mn: "0 \<le> m" "m < M" "0 \<le> n" "n < N" "i = wrap_int32 (m * sc + n)"
    by blast
  have "(i, word_of_int (dot_product_c A B K sa sb m n))
          \<in> set (matrix_stores A B M K N sa sb sc 0)"
    unfolding matrix_stores_split [OF mn(1-4)] mn(5) by simp
  then show "i \<in> fst ` set (matrix_stores A B M K N sa sb sc 0)"
    by (rule image_eqI [rotated]) simp
qed

text \<open>Where the index expressions fit, the 32-bit values are the mathematical ones.\<close>

lemma fit_store_index:
  "indices_fit M K N sa sb sc \<Longrightarrow> 0 \<le> m \<Longrightarrow> m < M \<Longrightarrow> 0 \<le> n \<Longrightarrow> n < N
     \<Longrightarrow> wrap_int32 (m * sc + n) = m * sc + n"
  by (simp add: indices_fit_def wrap_int32_fits)

lemma fit_dot_product:
  assumes "indices_fit M K N sa sb sc" "0 \<le> m" "m < M" "0 \<le> n" "n < N"
  shows "dot_product_c A B K sa sb m n = dot_product A B K sa sb m n"
  unfolding dot_product_c_def dot_product_def
proof (rule sum.cong [OF refl])
  fix k assume "k \<in> {0..<K}"
  then have k: "0 \<le> k \<and> k < K" by simp
  from assms k have "fits_int (m * sa + k)" "fits_int (k * sb + n)"
    unfolding indices_fit_def by blast+
  then show "sint (A (wrap_int32 (m * sa + k))) * sint (B (wrap_int32 (k * sb + n))) =
             sint (A (m * sa + k)) * sint (B (k * sb + n))"
    by (simp add: wrap_int32_fits)
qed

lemma fit_store_list:
  assumes "indices_fit M K N sa sb sc"
  shows "concat (map (\<lambda>m. map (\<lambda>n. (wrap_int32 (m * sc + n),
                                       wrap_int32 (dot_product_c A B K sa sb m n)))
                              [0..N - 1]) [0..M - 1]) =
         concat (map (\<lambda>m. map (\<lambda>n. (m * sc + n, wrap_int32 (dot_product A B K sa sb m n)))
                              [0..N - 1]) [0..M - 1])"
proof -
  have rows: "map (\<lambda>n. (wrap_int32 (m * sc + n), wrap_int32 (dot_product_c A B K sa sb m n))) [0..N - 1]
        = map (\<lambda>n. (m * sc + n, wrap_int32 (dot_product A B K sa sb m n))) [0..N - 1]"
    if "m \<in> set [0..M - 1]" for m
  proof (rule map_cong [OF refl])
    fix n assume "n \<in> set [0..N - 1]"
    with that have r: "0 \<le> m" "m < M" "0 \<le> n" "n < N" by simp_all
    show "(wrap_int32 (m * sc + n), wrap_int32 (dot_product_c A B K sa sb m n)) =
          (m * sc + n, wrap_int32 (dot_product A B K sa sb m n))"
      by (simp add: fit_store_index [OF assms r] fit_dot_product [OF assms r])
  qed
  have "map (\<lambda>m. map (\<lambda>n. (wrap_int32 (m * sc + n),
                                  wrap_int32 (dot_product_c A B K sa sb m n)))
                         [0..N - 1]) [0..M - 1] =
             map (\<lambda>m. map (\<lambda>n. (m * sc + n, wrap_int32 (dot_product A B K sa sb m n)))
                         [0..N - 1]) [0..M - 1]"
    by (rule map_cong [OF refl]) (rule rows)
  then show ?thesis
    by (rule arg_cong)
qed

lemma replay_contract:
  "reference_contract A B C (replay (matrix_stores A B M K N sa sb sc 0) C) M K N sa sb sc"
proof -
  let ?new = "matrix_stores A B M K N sa sb sc 0"
  let ?C' = "replay ?new C"
  have general: "map (\<lambda>(i, v). (i, sint v)) ?new =
            concat (map (\<lambda>m. map (\<lambda>n. (wrap_int32 (m * sc + n),
                                         wrap_int32 (dot_product_c A B K sa sb m n)))
                                [0..N - 1]) [0..M - 1])"
    by (simp add: matrix_stores_def row_stores_def map_concat comp_def sint_word_of_int_32)
  have part1: "\<exists>new. stores ?C' = stores C @ new
        \<and> map (\<lambda>(i, v). (i, sint v)) new =
            concat (map (\<lambda>m. map (\<lambda>n. (wrap_int32 (m * sc + n),
                                         wrap_int32 (dot_product_c A B K sa sb m n)))
                                [0..N - 1]) [0..M - 1])
        \<and> (indices_fit M K N sa sb sc \<longrightarrow>
             map (\<lambda>(i, v). (i, sint v)) new =
               concat (map (\<lambda>m. map (\<lambda>n. (m * sc + n, wrap_int32 (dot_product A B K sa sb m n)))
                                   [0..N - 1]) [0..M - 1]))"
    using general fit_store_list [of M K N sa sb sc A B]
    by (intro exI [of _ ?new]) (simp add: stores_replay)
  have part2: "sint (cells ?C' (wrap_int32 (m * sc + n))) =
                 wrap_int32 (dot_product_c A B K sa sb m n)"
    if a: "0 \<le> m \<and> m < M \<and> 0 \<le> n \<and> n < N
            \<and> (\<forall>m' n'. 0 \<le> m' \<and> m' < M \<and> 0 \<le> n' \<and> n' < N
                   \<and> (m < m' \<or> (m' = m \<and> n < n'))
                   \<longrightarrow> wrap_int32 (m' * sc + n') \<noteq> wrap_int32 (m * sc + n))" for m n
  proof -
    let ?after = "map (\<lambda>j. (wrap_int32 (m * sc + j),
                            word_of_int (dot_product_c A B K sa sb m j) :: 32 word)) [n + 1..N - 1]
              @ concat (map (\<lambda>i. row_stores A B K N sa sb sc i 0) [m + 1..M - 1])"
    have "wrap_int32 (m * sc + n) \<notin> fst ` set ?after"
    proof
      assume "wrap_int32 (m * sc + n) \<in> fst ` set ?after"
      then consider (row) j where "n + 1 \<le> j" "j \<le> N - 1"
          "wrap_int32 (m * sc + j) = wrap_int32 (m * sc + n)"
        | (later) m' n' where "m + 1 \<le> m'" "m' \<le> M - 1" "0 \<le> n'" "n' \<le> N - 1"
            "wrap_int32 (m' * sc + n') = wrap_int32 (m * sc + n)"
        by (auto simp: row_stores_def)
      then show False
      proof cases
        case row
        with a have "wrap_int32 (m * sc + j) \<noteq> wrap_int32 (m * sc + n)"
          by (intro a [THEN conjunct2, THEN conjunct2, THEN conjunct2, THEN conjunct2, rule_format])
            simp
        with row show ?thesis by simp
      next
        case later
        with a have "wrap_int32 (m' * sc + n') \<noteq> wrap_int32 (m * sc + n)"
          by (intro a [THEN conjunct2, THEN conjunct2, THEN conjunct2, THEN conjunct2, rule_format])
            simp
        with later show ?thesis by simp
      qed
    qed
    then have "fold (\<lambda>(j, v) c. c(j := v))
               ((concat (map (\<lambda>i. row_stores A B K N sa sb sc i 0) [0..m - 1])
                   @ map (\<lambda>j. (wrap_int32 (m * sc + j),
                                word_of_int (dot_product_c A B K sa sb m j))) [0..n - 1])
                @ (wrap_int32 (m * sc + n), word_of_int (dot_product_c A B K sa sb m n)) # ?after)
               (cells C) (wrap_int32 (m * sc + n)) = word_of_int (dot_product_c A B K sa sb m n)"
      by (rule fold_upd_last)
    then have "cells ?C' (wrap_int32 (m * sc + n)) = word_of_int (dot_product_c A B K sa sb m n)"
      using a by (simp only: cells_replay matrix_stores_split [of m M n N])
    then show ?thesis
      by (simp add: sint_word_of_int_32)
  qed
  have part3: "sint (cells ?C' (m * sc + n)) = wrap_int32 (dot_product A B K sa sb m n)"
    if fit: "indices_fit M K N sa sb sc"
      and a: "0 \<le> m \<and> m < M \<and> 0 \<le> n \<and> n < N
             \<and> (\<forall>m' n'. 0 \<le> m' \<and> m' < M \<and> 0 \<le> n' \<and> n' < N
                    \<and> (m < m' \<or> (m' = m \<and> n < n')) \<longrightarrow> m' * sc + n' \<noteq> m * sc + n)" for m n
  proof -
    from a have r: "0 \<le> m" "m < M" "0 \<le> n" "n < N" by simp_all
    have "wrap_int32 (m' * sc + n') \<noteq> wrap_int32 (m * sc + n)"
      if b: "0 \<le> m' \<and> m' < M \<and> 0 \<le> n' \<and> n' < N \<and> (m < m' \<or> (m' = m \<and> n < n'))" for m' n'
    proof -
      from b have r': "0 \<le> m'" "m' < M" "0 \<le> n'" "n' < N" by simp_all
      from a b have "m' * sc + n' \<noteq> m * sc + n" by blast
      then show ?thesis
        by (simp only: fit_store_index [OF fit r] fit_store_index [OF fit r'] not_False_eq_True)
    qed
    with a have "0 \<le> m \<and> m < M \<and> 0 \<le> n \<and> n < N
            \<and> (\<forall>m' n'. 0 \<le> m' \<and> m' < M \<and> 0 \<le> n' \<and> n' < N
                   \<and> (m < m' \<or> (m' = m \<and> n < n'))
                   \<longrightarrow> wrap_int32 (m' * sc + n') \<noteq> wrap_int32 (m * sc + n))"
      by blast
    from part2 [OF this] show ?thesis
      by (simp only: fit_store_index [OF fit r] fit_dot_product [OF fit r])
  qed
  have part4: "cells ?C' i = cells C i"
    if "\<forall>m n. 0 \<le> m \<and> m < M \<and> 0 \<le> n \<and> n < N \<longrightarrow> i \<noteq> wrap_int32 (m * sc + n)" for i
  proof -
    from that have "i \<notin> fst ` set ?new"
      unfolding fst_set_matrix_stores by blast
    then show ?thesis
      by (simp add: cells_replay fold_upd_other)
  qed
  show ?thesis
    unfolding reference_contract_def
    using part1 part2 part3 part4 by blast
qed

lemma mm_m_loop_contract:
  "reference_contract A B C (mm_m_loop A B M K N sa sb sc 0 C)
     (sint M) (sint K) (sint N) (sint sa) (sint sb) (sint sc)"
  using replay_contract [of A B C "sint M" "sint K" "sint N" "sint sa" "sint sb" "sint sc"]
  by (simp add: mm_m_loop_replay)

text \<open>
  \<^bold>\<open>C1.\<close> For all dimensions, all three strides and all inputs, \<open>matrix_multiply_int8\<close>
  and \<open>matrix_multiply_int16\<close> store, for every \<open>0 \<le> m < M\<close> and \<open>0 \<le> n < N\<close>, into
  \<open>C[m * stride_c + n]\<close> the sum over \<open>0 \<le> k < K\<close> of
  \<open>A[m * stride_a + k] * B[k * stride_b + n]\<close>, reduced modulo \<open>2^32\<close> and read as a signed
  32-bit number: no rounding, no saturation, and the row pitch is the stride argument.
  The index expressions are the \<open>int\<close> expressions of the source, with their 32-bit
  values; whenever they fit in \<open>int\<close> the cells and the sums are the mathematical ones.
  The cell keeps its value to the end of the call unless a later iteration stores into it
  again, and all other cells are untouched.
\<close>

theorem matrix_multiply_reference:
  "reference_contract A B C (matrix_multiply_int8 A B C M K N sa sb sc)
     (sint M) (sint K) (sint N) (sint sa) (sint sb) (sint sc)
   \<and> reference_contract A' B' C' (matrix_multiply_int16 A' B' C' M' K' N' sa' sb' sc')
        (sint M') (sint K') (sint N') (sint sa') (sint sb') (sint sc')"
  unfolding matrix_multiply_int8_def matrix_multiply_int16_def
  by (intro conjI mm_m_loop_contract)

lemma int_interval_0_2: "{0..<2::int} = {0, 1}"
  by auto

lemma int_interval_0_1: "{0..<1::int} = {0}"
  by auto

lemma wrap_int32_values:
  "wrap_int32 0 = 0" "wrap_int32 1 = 1" "wrap_int32 2 = 2" "wrap_int32 3 = 3" "wrap_int32 4 = 4"
  "wrap_int32 5 = 5" "wrap_int32 19 = 19" "wrap_int32 22 = 22" "wrap_int32 35 = 35"
  "wrap_int32 43 = 43" "wrap_int32 50 = 50"
  "wrap_int32 2147483647 = 2147483647" "wrap_int32 4294967294 = - 2"
  "wrap_int32 2147483648 = - 2147483648"
  by (simp_all add: wrap_int32_def)

lemma dot_literal:
  "dot_product_c A_literal B_literal 2 2 2 0 0 = 19"
  "dot_product_c A_literal B_literal 2 2 2 0 1 = 22"
  "dot_product_c A_literal B_literal 2 2 2 1 0 = 43"
  "dot_product_c A_literal B_literal 2 2 2 1 1 = 50"
  "dot_product A_literal B_literal 2 2 2 0 1 = 22"
  by (simp_all add: dot_product_c_def dot_product_def int_interval_0_2 A_literal_def
      B_literal_def wrap_int32_values)

lemma dot_lowest: "dot_product_c A_lowest A_lowest 2 1 1 0 0 = 2147483648"
  by (simp add: dot_product_c_def int_interval_0_2 A_lowest_def)

lemma dot_before:
  "dot_product_c A_before B_literal 1 2147483647 1 0 0 = 5"
  "dot_product_c A_before B_literal 1 2147483647 1 1 0 = 5"
  "dot_product_c A_before B_literal 1 2147483647 1 2 0 = 35"
  by (simp_all add: dot_product_c_def int_interval_0_1 A_before_def B_literal_def
      wrap_int32_values)

lemma sint_values:
  "sint (1 :: c_int) = 1" "sint (2 :: c_int) = 2" "sint (3 :: c_int) = 3"
  "sint (2147483647 :: c_int) = 2147483647" "sint (46341 :: c_int) = 46341"
  by simp_all

lemma literal_indices_fit: "indices_fit 2 2 2 2 2 2"
  by (auto simp: indices_fit_def fits_int_def)

theorem matrix_multiply_reference_witness:
  "map (\<lambda>(i, v). (i, sint v)) (stores (matrix_multiply_int8 A_literal B_literal C_empty 2 2 2 2 2 2))
     = [(0, 19), (1, 22), (2, 43), (3, 50)]
   \<and> map (\<lambda>(i, v). (i, sint v)) (stores (matrix_multiply_int8 A_literal B_literal C_empty 2 2 2 2 2 3))
     = [(0, 19), (1, 22), (3, 43), (4, 50)]
   \<and> map (\<lambda>(i, v). (i, sint v))
       (stores (matrix_multiply_int8 A_before B_literal C_empty 3 1 1 2147483647 1 1))
     = [(0, 5), (1, 5), (2, 35)]
   \<and> indices_fit 2 2 2 2 2 2
   \<and> sint (cells (matrix_multiply_int8 A_literal B_literal C_empty 2 2 2 2 2 2) (0 * 2 + 1)) = 22
   \<and> sint (cells (matrix_multiply_int16 A_lowest A_lowest C_empty 1 2 1 1 1 1) 0)
       = - 2147483648"
proof -
  note c8 = matrix_multiply_reference [of A_literal B_literal C_empty 2 2 2 2 2 2,
      THEN conjunct1, unfolded reference_contract_def sint_values]
  note c8' = matrix_multiply_reference [of A_literal B_literal C_empty 2 2 2 2 2 3,
      THEN conjunct1, unfolded reference_contract_def sint_values]
  note far = matrix_multiply_reference [of A_before B_literal C_empty 3 1 1 2147483647 1 1,
      THEN conjunct1, unfolded reference_contract_def sint_values]
  note c16 = matrix_multiply_reference [of _ _ _ _ _ _ _ _ _ A_lowest A_lowest C_empty 1 2 1 1 1 1,
      THEN conjunct2, unfolded reference_contract_def sint_values]
  have u: "[0..1] = [0, 1::int]" "[0..2] = [0, 1, 2::int]" by (simp_all add: upto_rec1)
  from c8 [THEN conjunct1]
  have 1: "map (\<lambda>(i, v). (i, sint v))
             (stores (matrix_multiply_int8 A_literal B_literal C_empty 2 2 2 2 2 2))
           = [(0, 19), (1, 22), (2, 43), (3, 50)]"
    by (auto simp: C_empty_def u dot_literal wrap_int32_values)
  from c8' [THEN conjunct1]
  have 2: "map (\<lambda>(i, v). (i, sint v))
             (stores (matrix_multiply_int8 A_literal B_literal C_empty 2 2 2 2 2 3))
           = [(0, 19), (1, 22), (3, 43), (4, 50)]"
    by (auto simp: C_empty_def u dot_literal wrap_int32_values)
  from far [THEN conjunct1]
  have 3: "map (\<lambda>(i, v). (i, sint v))
             (stores (matrix_multiply_int8 A_before B_literal C_empty 3 1 1 2147483647 1 1))
           = [(0, 5), (1, 5), (2, 35)]"
    by (auto simp: C_empty_def u dot_before wrap_int32_values)
  have h8: "(0::int) \<le> 0 \<and> (0::int) < 2 \<and> (0::int) \<le> 1 \<and> (1::int) < 2
            \<and> (\<forall>m' n'. 0 \<le> m' \<and> m' < 2 \<and> 0 \<le> n' \<and> n' < 2
                   \<and> (0 < m' \<or> (m' = 0 \<and> 1 < n')) \<longrightarrow> m' * 2 + n' \<noteq> 0 * 2 + (1::int))"
    by auto
  from c8 [THEN conjunct2, THEN conjunct2, THEN conjunct1, rule_format, OF literal_indices_fit h8]
  have 4: "sint (cells (matrix_multiply_int8 A_literal B_literal C_empty 2 2 2 2 2 2) (0 * 2 + 1)) = 22"
    by (simp add: dot_literal wrap_int32_values)
  have h16: "(0::int) \<le> 0 \<and> (0::int) < 1 \<and> (0::int) \<le> 0 \<and> (0::int) < 1
            \<and> (\<forall>m' n'. 0 \<le> m' \<and> m' < 1 \<and> 0 \<le> n' \<and> n' < 1
                   \<and> (0 < m' \<or> (m' = 0 \<and> 0 < n'))
                   \<longrightarrow> wrap_int32 (m' * 1 + n') \<noteq> wrap_int32 (0 * 1 + (0::int)))"
    by auto
  from c16 [THEN conjunct2, THEN conjunct1, rule_format, OF h16]
  have 5: "sint (cells (matrix_multiply_int16 A_lowest A_lowest C_empty 1 2 1 1 1 1) 0)
       = - 2147483648"
    by (simp add: dot_lowest wrap_int32_values)
  from 1 2 3 4 5 literal_indices_fit show ?thesis by simp
qed

subsection \<open>Comparison and the harness\<close>

lemma sint_product: "sint (a * b) = wrap_int32 (sint a * sint b)" for a b :: c_int
  using sint_index [of a b 0] by simp

lemma mismatch_set_step:
  "i < MN \<Longrightarrow>
     {j. i \<le> j \<and> j < MN \<and> C_hw j \<noteq> C_ref j} =
       (if C_hw i \<noteq> C_ref i then insert i {j. i + 1 \<le> j \<and> j < MN \<and> C_hw j \<noteq> C_ref j}
        else {j. i + 1 \<le> j \<and> j < MN \<and> C_hw j \<noteq> C_ref j})"
  for i MN :: int
  by (auto simp: order_le_less)

lemma mismatch_set_finite: "finite {j. i \<le> j \<and> j < MN \<and> C_hw j \<noteq> C_ref j}" for i MN :: int
  by (rule finite_subset [of _ "{i..<MN}"]) auto

lemma cmp_loop_count:
  "fst (cmp_loop C_hw C_ref MN i eo) =
     fst eo + of_nat (card {j. sint i \<le> j \<and> j < sint MN \<and> C_hw j \<noteq> C_ref j})"
proof (induction C_hw C_ref MN i eo rule: cmp_loop.induct)
  case (1 C_hw C_ref MN i errors out)
  show ?case
  proof (cases "i <s MN")
    case True
    then have lt: "sint i < sint MN" by (simp add: word_sless_alt)
    note step = mismatch_set_step [OF lt, of C_hw C_ref]
    have "fst (cmp_loop C_hw C_ref MN i (errors, out)) =
            fst (cmp_loop C_hw C_ref MN (i + 1)
                   (if C_hw (sint i) \<noteq> C_ref (sint i)
                    then (errors + 1, out @ [ErrorAt i (C_hw (sint i)) (C_ref (sint i))])
                    else (errors, out)))"
      using True by (subst cmp_loop.simps) simp
    also have "\<dots> = (if C_hw (sint i) \<noteq> C_ref (sint i) then errors + 1 else errors)
                   + of_nat (card {j. sint i + 1 \<le> j \<and> j < sint MN \<and> C_hw j \<noteq> C_ref j})"
      unfolding "1.IH" [OF True] sint_succ [OF True] by simp
    also have "\<dots> = errors + of_nat (card {j. sint i \<le> j \<and> j < sint MN \<and> C_hw j \<noteq> C_ref j})"
      by (simp add: step card_insert_disjoint [OF mismatch_set_finite])
    finally show ?thesis by simp
  next
    case False
    then have "\<not> sint i < sint MN" by (simp add: word_sless_alt)
    then have "{j. sint i \<le> j \<and> j < sint MN \<and> C_hw j \<noteq> C_ref j} = {}" by auto
    then have "card {j. sint i \<le> j \<and> j < sint MN \<and> C_hw j \<noteq> C_ref j} = 0"
      by (simp only: card.empty)
    with False show ?thesis by (subst cmp_loop.simps) simp
  qed
qed

lemma compare_results_word:
  "fst (compare_results C_hw C_ref M N out) = of_nat (mismatches C_hw C_ref (sint (M * N)))"
  by (simp add: compare_results_def cmp_loop_count mismatches_def)

lemma mismatches_le: "mismatches C_hw C_ref MN \<le> nat MN"
proof -
  have "card {i. 0 \<le> i \<and> i < MN \<and> C_hw i \<noteq> C_ref i} \<le> card {0..<MN}"
    by (rule card_mono) auto
  then show ?thesis by (simp add: mismatches_def)
qed

lemma compare_results_count:
  "sint (fst (compare_results C_hw C_ref M N out)) =
     int (mismatches C_hw C_ref (wrap_int32 (sint M * sint N)))"
proof -
  have "sint (M * N) < 2 ^ (LENGTH(32) - 1)" by (rule sint_lt)
  then have "nat (sint (M * N)) < 2 ^ 31" by simp
  with mismatches_le [of C_hw C_ref "sint (M * N)"]
  have "mismatches C_hw C_ref (sint (M * N)) < 2 ^ 31" by simp
  then show ?thesis
    unfolding compare_results_word sint_product [symmetric] by (rule sint_of_nat_small)
qed

lemma length_case_mismatches: "length (case_mismatches rnd p tcs) = length tcs"
  by (induction tcs arbitrary: p) (auto split: prod.splits)

lemma sum_case_mismatches_le:
  "sum_list (case_mismatches rnd p tcs)
     \<le> sum_list (map (\<lambda>tc. nat (sint (tc_M tc) * sint (tc_N tc))) tcs)"
proof (induction tcs arbitrary: p)
  case Nil
  then show ?case by simp
next
  case (Cons tc tcs)
  obtain C_hw C_ref p' where tb: "test_buffers rnd p tc = (C_hw, C_ref, p')"
    by (cases "test_buffers rnd p tc") auto
  show ?case
    using Cons.IH [of p'] mismatches_le [of C_hw C_ref "sint (tc_M tc) * sint (tc_N tc)"]
    by (simp add: tb)
qed

lemma sint_num_tests: "sint num_tests = 8"
  by (simp add: num_tests_def test_cases_def)

lemma test_case_products:
  "tc \<in> set test_cases \<Longrightarrow> sint (tc_M tc * tc_N tc) = sint (tc_M tc) * sint (tc_N tc)"
  by (auto simp: test_cases_def)

lemma main_loop_total:
  "0 \<le> sint t \<Longrightarrow>
     total_errors (main_loop rnd t h) =
       total_errors h
       + of_nat (sum_list (case_mismatches rnd (rand_calls h) (drop (nat (sint t)) test_cases)))"
proof (induction rnd t h rule: main_loop.induct)
  case (1 rnd t h)
  show ?case
  proof (cases "t <s num_tests")
    case True
    then have lt8: "sint t < 8" by (simp add: word_sless_alt sint_num_tests)
    with "1.prems" have lt: "nat (sint t) < length test_cases" by (simp add: test_cases_def)
    define tc where "tc = test_cases ! nat (sint t)"
    have mem: "tc \<in> set test_cases" unfolding tc_def using lt by (rule nth_mem)
    obtain C_hw C_ref p where tb: "test_buffers rnd (rand_calls h) tc = (C_hw, C_ref, p)"
      by (cases "test_buffers rnd (rand_calls h) tc") auto
    obtain errors out where cr:
      "compare_results C_hw C_ref (tc_M tc) (tc_N tc) (printed h @ [TestLine (t + 1) (tc_name tc)])
         = (errors, out)"
      by (cases "compare_results C_hw C_ref (tc_M tc) (tc_N tc)
                   (printed h @ [TestLine (t + 1) (tc_name tc)])") auto
    have e: "errors = of_nat (mismatches C_hw C_ref (sint (tc_M tc) * sint (tc_N tc)))"
      using compare_results_word [of C_hw C_ref "tc_M tc" "tc_N tc"
          "printed h @ [TestLine (t + 1) (tc_name tc)]"] cr
      by (simp add: test_case_products [OF mem])
    let ?h' = "\<lparr>total_errors = total_errors h + errors, rand_calls = p,
                 printed = out @ [ErrorsLine errors]\<rparr>"
    have unfold: "main_loop rnd t h = main_loop rnd (t + 1) ?h'"
      using True by (subst main_loop.simps) (simp add: tc_def [symmetric] tb cr)
    have s: "sint (t + 1) = sint t + 1" using True by (rule sint_succ)
    have ih: "total_errors (main_loop rnd (t + 1) ?h') =
                total_errors ?h'
                + of_nat (sum_list (case_mismatches rnd (rand_calls ?h')
                                      (drop (nat (sint (t + 1))) test_cases)))"
      using "1.prems" True
      by (intro "1.IH" [of tc C_hw "(C_ref, p)" C_ref p errors out])
        (simp_all add: tb [symmetric] cr [symmetric] s, simp_all add: tc_def)
    have d: "drop (nat (sint t)) test_cases = tc # drop (nat (sint (t + 1))) test_cases"
      using lt "1.prems" by (simp add: tc_def Cons_nth_drop_Suc nat_add_distrib s)
    show ?thesis
      unfolding unfold ih d by (simp add: tb e)
  next
    case False
    then have "\<not> sint t < 8" by (simp add: word_sless_alt sint_num_tests)
    then have "drop (nat (sint t)) test_cases = []" by (simp add: test_cases_def)
    with False show ?thesis by (subst main_loop.simps) simp
  qed
qed

lemma main_total_word:
  "fst (main rnd) = of_nat (sum_list (case_mismatches rnd 0 test_cases))"
  using main_loop_total [of 0 rnd "\<lparr>total_errors = 0, rand_calls = 0, printed = [Banner]\<rparr>"]
  by (simp add: main_def Let_def)

lemma main_total_small: "sum_list (case_mismatches rnd 0 test_cases) < 2 ^ 31"
proof -
  have "sum_list (map (\<lambda>tc. nat (sint (tc_M tc) * sint (tc_N tc))) test_cases) = 23168"
    by (simp add: test_cases_def)
  with sum_case_mismatches_le [of rnd 0 test_cases] show ?thesis by simp
qed

text \<open>
  \<^bold>\<open>C6.\<close> \<open>compare_results\<close> returns the number of indices \<open>i\<close> with \<open>0 \<le> i < M * N\<close>
  at which the two buffers differ, \<open>M * N\<close> being the \<open>int\<close> product of the source: its
  32-bit value in general, and the mathematical product whenever that fits in \<open>int\<close>.
  \<open>main\<close> runs eight test cases and returns the sum of their mismatch counts; its result
  is nonzero exactly when that total is nonzero, and the last line it prints says which.
  (The result is the value returned by \<open>main\<close>; what the host makes of it as an exit
  status is outside the model.)
\<close>

theorem mismatch_accounting:
  "sint (fst (compare_results C_hw C_ref M N out)) =
       int (card {i. 0 \<le> i \<and> i < wrap_int32 (sint M * sint N) \<and> C_hw i \<noteq> C_ref i})
   \<and> (fits_int (sint M * sint N) \<longrightarrow>
        sint (fst (compare_results C_hw C_ref M N out)) =
          int (card {i. 0 \<le> i \<and> i < sint M * sint N \<and> C_hw i \<noteq> C_ref i}))
   \<and> length (case_mismatches rnd 0 test_cases) = 8
   \<and> sint (fst (main rnd)) = int (sum_list (case_mismatches rnd 0 test_cases))
   \<and> (fst (main rnd) \<noteq> 0) = (sum_list (case_mismatches rnd 0 test_cases) \<noteq> 0)
   \<and> last (snd (main rnd)) = (if fst (main rnd) = 0 then AllPassed else SomeFailed)"
proof -
  have c: "sint (fst (compare_results C_hw C_ref M N out)) =
       int (card {i. 0 \<le> i \<and> i < wrap_int32 (sint M * sint N) \<and> C_hw i \<noteq> C_ref i})"
    by (simp add: compare_results_count mismatches_def)
  have c': "sint (fst (compare_results C_hw C_ref M N out)) =
          int (card {i. 0 \<le> i \<and> i < sint M * sint N \<and> C_hw i \<noteq> C_ref i})"
    if "fits_int (sint M * sint N)"
    using c by (simp add: wrap_int32_fits [OF that])
  have m: "sint (fst (main rnd)) = int (sum_list (case_mismatches rnd 0 test_cases))"
    unfolding main_total_word using main_total_small by (rule sint_of_nat_small)
  have z: "(fst (main rnd) \<noteq> 0) = (sum_list (case_mismatches rnd 0 test_cases) \<noteq> 0)"
  proof -
    have "(sint (fst (main rnd)) = 0) = (fst (main rnd) = 0)" by (rule signed_eq_0_iff)
    then show ?thesis unfolding m by simp
  qed
  have l: "length (case_mismatches rnd 0 test_cases) = 8"
    unfolding length_case_mismatches by (simp add: test_cases_def)
  have v: "last (snd (main rnd)) = (if fst (main rnd) = 0 then AllPassed else SomeFailed)"
    by (simp add: main_def Let_def)
  from c c' m z l v show ?thesis by blast
qed

theorem mismatch_accounting_witness:
  "fits_int (sint (2 :: c_int) * sint (2 :: c_int))
   \<and> sint (fst (compare_results (cells C_empty) C_ref_one 2 2 [])) = 1
   \<and> sint (fst (compare_results (cells C_empty) C_ref_one 46341 46341 [])) = 0"
proof -
  have f: "fits_int (sint (2 :: c_int) * sint (2 :: c_int))"
    by (simp add: fits_int_def)
  have "{i. 0 \<le> i \<and> i < sint (2 :: c_int) * sint (2 :: c_int) \<and> cells C_empty i \<noteq> C_ref_one i} = {2}"
    by (auto simp: C_empty_def C_ref_one_def)
  then have 1: "sint (fst (compare_results (cells C_empty) C_ref_one 2 2 [])) = 1"
    using mismatch_accounting [of "cells C_empty" C_ref_one 2 2 "[]",
        THEN conjunct2, THEN conjunct1, rule_format, OF f]
    by simp
  have "wrap_int32 (sint (46341 :: c_int) * sint (46341 :: c_int)) < 0"
    by (simp add: wrap_int32_def)
  then have "{i. 0 \<le> i \<and> i < wrap_int32 (sint (46341 :: c_int) * sint (46341 :: c_int))
                 \<and> cells C_empty i \<noteq> C_ref_one i} = {}"
    by auto
  then have 2: "sint (fst (compare_results (cells C_empty) C_ref_one 46341 46341 [])) = 0"
    using mismatch_accounting [of "cells C_empty" C_ref_one 46341 46341 "[]", THEN conjunct1]
    by (simp only: card.empty of_nat_0)
  from f 1 2 show ?thesis by simp
qed

end
